theory Spec2Isabelle
  imports Main
begin

section \<open>SopsSecretGenerator: a shallow embedding of \<^verbatim>\<open>SopsSecretGenerator.go\<close>\<close>

text \<open>
  Go strings and byte slices are sequences of bytes; both are modelled as \<^typ>\<open>string\<close>
  (a list of 8-bit characters). A Go \<^verbatim>\<open>map[string]string\<close> is a partial function from
  keys to values. Every error return of the source is a value of the type \<open>error\<close>;
  a function that can fail returns \<open>error + 'a\<close> with \<open>Inl\<close> for the error.
\<close>

type_synonym kvMap = "string \<rightharpoonup> string"

datatype error =
    ExternalError string
  | BadApiVersionKind
  | MissingName
  | EnvSourceErr string error
  | FileSourceErr string error
  | LineErr nat error
  | CouldNotReadFile error
  | SopsCouldNotDecrypt error
  | InvalidUTF8 string
  | RequiresValue string
  | UnknownFileFormat
  | KeyNameMissing string
  | FilePathMissing string
  | AmbiguousDelimiter
  | ErrTooLong

subsection \<open>Constants of the source\<close>

definition apiVersion :: string where
  "apiVersion = ''kustomize.freightdog.com/v1''"

definition kind :: string where
  "kind = ''SopsSecretGenerator''"

definition utf8bom :: string where
  "utf8bom = [CHR 0xEF, CHR 0xBB, CHR 0xBF]"

definition stripAnnotations :: "string set" where
  "stripAnnotations = {''config.kubernetes.io/local-config'', ''config.kubernetes.io/function''}"

subsection \<open>The Go standard library functions the source calls\<close>

text \<open>\<^verbatim>\<open>bytes.IndexByte\<close> / \<^verbatim>\<open>strings.Index\<close> with a one-byte separator; \<open>None\<close> is Go's \<open>-1\<close>.\<close>

fun IndexByte :: "string \<Rightarrow> char \<Rightarrow> nat option" where
  "IndexByte [] c = None"
| "IndexByte (x # xs) c = (if x = c then Some 0 else map_option Suc (IndexByte xs c))"

text \<open>\<^verbatim>\<open>strings.Count\<close> with a one-byte separator.\<close>

definition Count :: "string \<Rightarrow> char \<Rightarrow> nat" where
  "Count s c = length (filter (\<lambda>x. x = c) s)"

text \<open>
  \<^verbatim>\<open>strings.genSplit(s, sep, 0, n)\<close> for a one-byte separator and \<open>n \<ge> 0\<close>: at most \<open>n\<close>
  pieces, the last one the unsplit remainder.
\<close>

fun genSplit :: "string \<Rightarrow> char \<Rightarrow> nat \<Rightarrow> string list" where
  "genSplit s sep 0 = []"
| "genSplit s sep (Suc 0) = [s]"
| "genSplit s sep (Suc (Suc n)) =
     (case IndexByte s sep of
        None \<Rightarrow> [s]
      | Some m \<Rightarrow> take m s # genSplit (drop (m + 1) s) sep (Suc n))"

text \<open>\<^verbatim>\<open>strings.Split(s, sep)\<close>: \<open>genSplit\<close> with \<open>n = Count(s, sep) + 1\<close>.\<close>

definition Split :: "string \<Rightarrow> char \<Rightarrow> string list" where
  "Split s sep = genSplit s sep (Count s sep + 1)"

text \<open>\<^verbatim>\<open>strings.SplitN(s, sep, n)\<close> for \<open>n \<ge> 0\<close>.\<close>

definition SplitN :: "string \<Rightarrow> char \<Rightarrow> nat \<Rightarrow> string list" where
  "SplitN s sep n = genSplit s sep n"

text \<open>\<^verbatim>\<open>strings.LastIndexByte\<close>.\<close>

fun LastIndexByte :: "string \<Rightarrow> char \<Rightarrow> nat option" where
  "LastIndexByte [] c = None"
| "LastIndexByte (x # xs) c =
     (case LastIndexByte xs c of
        Some i \<Rightarrow> Some (Suc i)
      | None \<Rightarrow> (if x = c then Some 0 else None))"

text \<open>The loop of \<^verbatim>\<open>path.Base\<close> that strips trailing slashes.\<close>

function stripTrailingSlashes :: "string \<Rightarrow> string" where
  "stripTrailingSlashes p =
     (if length p > 0 \<and> p ! (length p - 1) = CHR ''/''
      then stripTrailingSlashes (take (length p - 1) p) else p)"
  by pat_completeness auto
termination
  by (relation "measure length") auto

declare stripTrailingSlashes.simps [simp del]

text \<open>\<^verbatim>\<open>path.Base\<close>.\<close>

definition Base :: "string \<Rightarrow> string" where
  "Base p =
     (if p = [] then ''.''
      else let p1 = stripTrailingSlashes p;
               p2 = (case LastIndexByte p1 (CHR ''/'') of Some i \<Rightarrow> drop (i + 1) p1 | None \<Rightarrow> p1)
           in if p2 = [] then ''/'' else p2)"

text \<open>\<^verbatim>\<open>bytes.TrimPrefix\<close>.\<close>

definition TrimPrefix :: "string \<Rightarrow> string \<Rightarrow> string" where
  "TrimPrefix s pre = (if take (length pre) s = pre then drop (length pre) s else s)"

subsubsection \<open>Base64 (\<^verbatim>\<open>base64.StdEncoding.EncodeToString\<close>)\<close>

definition encodeStd :: string where
  "encodeStd = ''ABCDEFGHIJKLMNOPQRSTUVWXYZabcdefghijklmnopqrstuvwxyz0123456789+/''"

definition enc :: "nat \<Rightarrow> char" where
  "enc v = encodeStd ! (v mod 64)"

fun EncodeToString :: "string \<Rightarrow> string" where
  "EncodeToString (a # b # c # rest) =
     (let val = of_char a * 65536 + of_char b * 256 + of_char c
      in enc (val div 262144) # enc (val div 4096) # enc (val div 64) # enc val
         # EncodeToString rest)"
| "EncodeToString [a, b] =
     (let val = of_char a * 65536 + of_char b * 256
      in [enc (val div 262144), enc (val div 4096), enc (val div 64), CHR ''=''])"
| "EncodeToString [a] =
     (let val = of_char a * 65536
      in [enc (val div 262144), enc (val div 4096), CHR ''='', CHR ''=''])"
| "EncodeToString [] = []"

subsubsection \<open>UTF-8 (\<^verbatim>\<open>unicode/utf8\<close>) and \<^verbatim>\<open>unicode.IsSpace\<close>\<close>

text \<open>
  The table \<^verbatim>\<open>first\<close> of \<^verbatim>\<open>unicode/utf8\<close> for a byte \<open>\<ge> 0x80\<close>: the length of the
  sequence it starts and the accepted range of the second byte; \<open>None\<close> is the
  entry \<^verbatim>\<open>xx\<close> (an illegal starter byte).
\<close>

definition first :: "nat \<Rightarrow> (nat \<times> nat \<times> nat) option" where
  "first x =
     (if 0xC2 \<le> x \<and> x \<le> 0xDF then Some (2, 0x80, 0xBF)
      else if x = 0xE0 then Some (3, 0xA0, 0xBF)
      else if 0xE1 \<le> x \<and> x \<le> 0xEC then Some (3, 0x80, 0xBF)
      else if x = 0xED then Some (3, 0x80, 0x9F)
      else if 0xEE \<le> x \<and> x \<le> 0xEF then Some (3, 0x80, 0xBF)
      else if x = 0xF0 then Some (4, 0x90, 0xBF)
      else if 0xF1 \<le> x \<and> x \<le> 0xF3 then Some (4, 0x80, 0xBF)
      else if x = 0xF4 then Some (4, 0x80, 0x8F)
      else None)"

definition RuneError :: nat where
  "RuneError = 0xFFFD"

definition inRange :: "nat \<Rightarrow> nat \<Rightarrow> char \<Rightarrow> bool" where
  "inRange lo hi c = (lo \<le> of_char c \<and> (of_char c :: nat) \<le> hi)"

text \<open>
  \<^verbatim>\<open>utf8.DecodeRune\<close>: the code point at the start of \<open>p\<close> and its width in bytes;
  an invalid or short sequence decodes to \<open>(RuneError, 1)\<close>, the empty input to
  \<open>(RuneError, 0)\<close>.
\<close>

definition DecodeRune :: "string \<Rightarrow> nat \<times> nat" where
  "DecodeRune p =
     (if length p < 1 then (RuneError, 0)
      else let p0 = (of_char (p ! 0) :: nat) in
        if p0 < 0x80 then (p0, 1)
        else case first p0 of
          None \<Rightarrow> (RuneError, 1)
        | Some (sz, lo, hi) \<Rightarrow>
            if length p < sz then (RuneError, 1)
            else if \<not> inRange lo hi (p ! 1) then (RuneError, 1)
            else if sz \<le> 2 then ((p0 mod 32) * 64 + of_char (p ! 1) mod 64, 2)
            else if \<not> inRange 0x80 0xBF (p ! 2) then (RuneError, 1)
            else if sz \<le> 3 then
              ((p0 mod 16) * 4096 + (of_char (p ! 1) mod 64) * 64 + of_char (p ! 2) mod 64, 3)
            else if \<not> inRange 0x80 0xBF (p ! 3) then (RuneError, 1)
            else ((p0 mod 8) * 262144 + (of_char (p ! 1) mod 64) * 4096
                  + (of_char (p ! 2) mod 64) * 64 + of_char (p ! 3) mod 64, 4))"

text \<open>\<^verbatim>\<open>utf8.Valid\<close>: the loop over the index \<open>i\<close>, here over the remaining bytes.\<close>

function Valid :: "string \<Rightarrow> bool" where
  "Valid p =
     (if p = [] then True
      else let pi = (of_char (p ! 0) :: nat) in
        if pi < 0x80 then Valid (drop 1 p)
        else case first pi of
          None \<Rightarrow> False
        | Some (sz, lo, hi) \<Rightarrow>
            if sz > length p then False
            else if \<not> inRange lo hi (p ! 1) then False
            else if sz = 2 then Valid (drop sz p)
            else if \<not> inRange 0x80 0xBF (p ! 2) then False
            else if sz = 3 then Valid (drop sz p)
            else if \<not> inRange 0x80 0xBF (p ! 3) then False
            else Valid (drop sz p))"
  by pat_completeness auto
termination
  by (relation "measure length") (auto simp: first_def split: if_splits)

declare Valid.simps [simp del]

text \<open>
  \<^verbatim>\<open>unicode.IsSpace\<close>: the Latin-1 cases of the switch, and the \<^verbatim>\<open>White_Space\<close> range
  table above Latin-1.
\<close>

definition IsSpace :: "nat \<Rightarrow> bool" where
  "IsSpace r =
     (if r \<le> 0xFF then r \<in> {0x09, 0x0A, 0x0B, 0x0C, 0x0D, 0x20, 0x85, 0xA0}
      else r = 0x1680 \<or> (0x2000 \<le> r \<and> r \<le> 0x200A) \<or> r = 0x2028 \<or> r = 0x2029
           \<or> r = 0x202F \<or> r = 0x205F \<or> r = 0x3000)"

text \<open>
  \<^verbatim>\<open>bytes.TrimLeftFunc(s, unicode.IsSpace)\<close>: the loop of \<^verbatim>\<open>indexFunc\<close> decodes one rune
  at a time and stops at the first one that is not a space.
\<close>

function TrimLeftSpace :: "string \<Rightarrow> string" where
  "TrimLeftSpace s =
     (if s = [] then []
      else let (r, wid) = (if (of_char (s ! 0) :: nat) < 0x80 then (of_char (s ! 0), 1)
                           else DecodeRune s)
           in if IsSpace r then TrimLeftSpace (drop wid s) else s)"
  by pat_completeness auto
termination
  by (relation "measure length")
     (auto simp: DecodeRune_def first_def Let_def split: if_splits option.splits)

declare TrimLeftSpace.simps [simp del]

subsection \<open>The source locator\<close>

definition parseFileName :: "string \<Rightarrow> error + (string \<times> string)" where
  "parseFileName source =
     (let components = Split source (CHR ''='') in
      if length components = 1 then Inr (Base source, source)
      else if length components = 2 then
        (let key = components ! 0; fn = components ! 1 in
         if key = [] then Inl (KeyNameMissing fn)
         else if fn = [] then Inl (FilePathMissing key)
         else Inr (key, fn))
      else Inl AmbiguousDelimiter)"

subsection \<open>The dotenv line parser\<close>

definition parseDotEnvLine :: "string \<Rightarrow> kvMap \<Rightarrow> error + kvMap" where
  "parseDotEnvLine line0 data =
     (if \<not> Valid line0 then Inl (InvalidUTF8 line0)
      else let line = TrimLeftSpace line0 in
        if length line = 0 \<or> line ! 0 = CHR ''#'' then Inr data
        else let pair = SplitN line (CHR ''='') 2 in
          if length pair \<noteq> 2 then Inl (RequiresValue line)
          else Inr (data(pair ! 0 \<mapsto> EncodeToString (pair ! 1))))"

subsection \<open>The dotenv content parser\<close>

text \<open>
  \<^verbatim>\<open>bufio.Scanner\<close> with the default split function \<^verbatim>\<open>bufio.ScanLines\<close> over a
  \<^verbatim>\<open>bytes.Reader\<close>. \<open>dropCR\<close> and \<open>ScanLines\<close> are the library's functions. The
  scanner's buffer grows up to \<^verbatim>\<open>bufio.MaxScanTokenSize\<close> bytes: \<open>Scan\<close> gives the
  split function the unread input that fits into the full buffer, with \<open>atEOF\<close>
  set when the reader was exhausted before the buffer was full, and fails with
  \<^verbatim>\<open>bufio.ErrTooLong\<close> when the full buffer holds no token. The state of the scanner
  is the unread input.
\<close>

definition maxScanTokenSize :: nat where
  "maxScanTokenSize = 64 * 1024"

definition dropCR :: "string \<Rightarrow> string" where
  "dropCR data =
     (if length data > 0 \<and> data ! (length data - 1) = CHR 0x0D
      then take (length data - 1) data else data)"

definition ScanLines :: "string \<Rightarrow> bool \<Rightarrow> nat \<times> string option" where
  "ScanLines data atEOF =
     (if atEOF \<and> length data = 0 then (0, None)
      else case IndexByte data (CHR 0x0A) of
        Some i \<Rightarrow> (i + 1, Some (dropCR (take i data)))
      | None \<Rightarrow> if atEOF then (length data, Some (dropCR data)) else (0, None))"

datatype scan_result = Token string string | Stop "error option"

definition Scan :: "string \<Rightarrow> scan_result" where
  "Scan unread =
     (let atEOF = length unread < maxScanTokenSize;
          buf = take maxScanTokenSize unread
      in case ScanLines buf atEOF of
           (advance, Some token) \<Rightarrow> Token token (drop advance unread)
         | (advance, None) \<Rightarrow> Stop (if atEOF then None else Some ErrTooLong))"

text \<open>
  The loop of \<open>parseDotEnvContent\<close>: \<open>Stop err\<close> is \<^verbatim>\<open>scanner.Scan()\<close> returning false,
  with \<open>err\<close> the value of \<^verbatim>\<open>scanner.Err()\<close>.
\<close>

function parseDotEnvLoop :: "string \<Rightarrow> nat \<Rightarrow> kvMap \<Rightarrow> error + kvMap" where
  "parseDotEnvLoop unread lineNum data =
     (case Scan unread of
        Stop err \<Rightarrow> (case err of None \<Rightarrow> Inr data | Some e \<Rightarrow> Inl e)
      | Token token unread' \<Rightarrow>
          (let line = (if lineNum = 0 then TrimPrefix token utf8bom else token) in
           case parseDotEnvLine line data of
             Inl err \<Rightarrow> Inl (LineErr lineNum err)
           | Inr data' \<Rightarrow> parseDotEnvLoop unread' (lineNum + 1) data'))"
  by pat_completeness auto
termination
  by (relation "measure (\<lambda>(unread, lineNum, data). length unread)")
     (auto simp: Scan_def ScanLines_def Let_def maxScanTokenSize_def
           split: if_splits option.splits prod.splits)

declare parseDotEnvLoop.simps [simp del]

definition parseDotEnvContent :: "string \<Rightarrow> kvMap \<Rightarrow> error + kvMap" where
  "parseDotEnvContent content data = parseDotEnvLoop content 0 data"

subsection \<open>Data model\<close>

record TypeMeta =
  APIVersion :: string
  Kind :: string

record ObjectMeta =
  Name :: string
  Namespace :: string
  Labels :: kvMap
  Annotations :: kvMap

text \<open>
  The embedded structs \<open>TypeMeta\<close> and \<open>ObjectMeta\<close> are fields of their own; Go's
  promoted field \<^verbatim>\<open>input.Name\<close> is \<open>Name (ObjectMeta input)\<close>.
\<close>

record SopsSecretGenerator =
  TypeMeta :: TypeMeta
  ObjectMeta :: ObjectMeta
  EnvSources :: "string list"
  FileSources :: "string list"
  Behavior :: string
  DisableNameSuffixHash :: bool
  Type :: string

record Secret =
  SecretTypeMeta :: TypeMeta
  SecretObjectMeta :: ObjectMeta
  Data :: kvMap
  SecretType :: string

text \<open>\<^verbatim>\<open>formats.Format\<close> of the sops library.\<close>

datatype Format = Binary | Dotenv | Ini | Json | Yaml

text \<open>\<^verbatim>\<open>fn.KubeObject\<close> of the function SDK, an opaque object around a document.\<close>

datatype KubeObject = KubeObject string

text \<open>\<^verbatim>\<open>fn.ResourceList\<close>: the items and the results logged by \<^verbatim>\<open>LogResult\<close>.\<close>

record ResourceList =
  Items :: "KubeObject list"
  Results :: "error list"

subsection \<open>External collaborators and effects\<close>

text \<open>
  The file system and the third-party libraries are parameters of the model: the
  record \<open>world\<close> holds \<^verbatim>\<open>os.ReadFile\<close>, \<^verbatim>\<open>decrypt.DataWithFormat\<close> and
  \<^verbatim>\<open>formats.FormatForPath\<close> of sops, \<^verbatim>\<open>yaml.Unmarshal\<close> into a generator (given the
  pre-initialised struct) and into a \<open>kvMap\<close>, \<^verbatim>\<open>json.Unmarshal\<close> into a \<open>kvMap\<close>,
  \<^verbatim>\<open>yaml.Marshal\<close> of a Secret, and \<^verbatim>\<open>KubeObject.String\<close> and \<^verbatim>\<open>fn.ParseKubeObject\<close>
  of the SDK. Every file read and every call of the decryption engine is
  recorded, in order, in a log of events that the functions pass along.
\<close>

record world =
  osReadFile :: "string \<Rightarrow> error + string"
  decryptDataWithFormat :: "string \<Rightarrow> Format \<Rightarrow> error + string"
  FormatForPath :: "string \<Rightarrow> Format"
  yamlUnmarshalInput :: "string \<Rightarrow> SopsSecretGenerator \<Rightarrow> error + SopsSecretGenerator"
  yamlUnmarshalMap :: "string \<Rightarrow> error + kvMap"
  jsonUnmarshalMap :: "string \<Rightarrow> error + kvMap"
  yamlMarshal :: "Secret \<Rightarrow> error + string"
  KubeObjectString :: "KubeObject \<Rightarrow> string"
  ParseKubeObject :: "string \<Rightarrow> error + KubeObject"

datatype event = ReadFile string | Decrypt string Format

subsection \<open>The decryption adapter\<close>

definition decryptFile :: "world \<Rightarrow> string \<Rightarrow> event list \<Rightarrow> (error + string) \<times> event list" where
  "decryptFile w source log =
     (case osReadFile w source of
        Inl err \<Rightarrow> (Inl (CouldNotReadFile err), log @ [ReadFile source])
      | Inr content \<Rightarrow>
          (case decryptDataWithFormat w content (FormatForPath w source) of
             Inl err \<Rightarrow>
               (Inl (SopsCouldNotDecrypt err),
                log @ [ReadFile source, Decrypt content (FormatForPath w source)])
           | Inr decrypted \<Rightarrow>
               (Inr decrypted,
                log @ [ReadFile source, Decrypt content (FormatForPath w source)])))"

subsection \<open>Env sources\<close>

definition parseYAMLContent :: "world \<Rightarrow> string \<Rightarrow> kvMap \<Rightarrow> error + kvMap" where
  "parseYAMLContent w content data =
     (case yamlUnmarshalMap w content of
        Inl err \<Rightarrow> Inl err
      | Inr d \<Rightarrow> Inr (data ++ (\<lambda>k. map_option EncodeToString (d k))))"

definition parseJSONContent :: "world \<Rightarrow> string \<Rightarrow> kvMap \<Rightarrow> error + kvMap" where
  "parseJSONContent w content data =
     (case jsonUnmarshalMap w content of
        Inl err \<Rightarrow> Inl err
      | Inr d \<Rightarrow> Inr (data ++ (\<lambda>k. map_option EncodeToString (d k))))"

definition parseEnvSource ::
  "world \<Rightarrow> string \<Rightarrow> kvMap \<Rightarrow> event list \<Rightarrow> (error + kvMap) \<times> event list" where
  "parseEnvSource w source data log =
     (case decryptFile w source log of
        (Inl err, log') \<Rightarrow> (Inl err, log')
      | (Inr decrypted, log') \<Rightarrow>
          ((case FormatForPath w source of
              Dotenv \<Rightarrow> parseDotEnvContent decrypted data
            | Yaml \<Rightarrow> parseYAMLContent w decrypted data
            | Json \<Rightarrow> parseJSONContent w decrypted data
            | _ \<Rightarrow> Inl UnknownFileFormat), log'))"

fun parseEnvSources ::
  "world \<Rightarrow> string list \<Rightarrow> kvMap \<Rightarrow> event list \<Rightarrow> (error + kvMap) \<times> event list" where
  "parseEnvSources w [] data log = (Inr data, log)"
| "parseEnvSources w (source # sources) data log =
     (case parseEnvSource w source data log of
        (Inl err, log') \<Rightarrow> (Inl (EnvSourceErr source err), log')
      | (Inr data', log') \<Rightarrow> parseEnvSources w sources data' log')"

subsection \<open>File sources\<close>

definition parseFileSource ::
  "world \<Rightarrow> string \<Rightarrow> kvMap \<Rightarrow> event list \<Rightarrow> (error + kvMap) \<times> event list" where
  "parseFileSource w source data log =
     (case parseFileName source of
        Inl err \<Rightarrow> (Inl err, log)
      | Inr (key, fname) \<Rightarrow>
          (case decryptFile w fname log of
             (Inl err, log') \<Rightarrow> (Inl err, log')
           | (Inr decrypted, log') \<Rightarrow> (Inr (data(key \<mapsto> EncodeToString decrypted)), log')))"

fun parseFileSources ::
  "world \<Rightarrow> string list \<Rightarrow> kvMap \<Rightarrow> event list \<Rightarrow> (error + kvMap) \<times> event list" where
  "parseFileSources w [] data log = (Inr data, log)"
| "parseFileSources w (source # sources) data log =
     (case parseFileSource w source data log of
        (Inl err, log') \<Rightarrow> (Inl (FileSourceErr source err), log')
      | (Inr data', log') \<Rightarrow> parseFileSources w sources data' log')"

subsection \<open>The manifest pipeline\<close>

definition parseInput ::
  "world \<Rightarrow> SopsSecretGenerator \<Rightarrow> event list \<Rightarrow> (error + kvMap) \<times> event list" where
  "parseInput w input log =
     (case parseEnvSources w (EnvSources input) Map.empty log of
        (Inl err, log') \<Rightarrow> (Inl err, log')
      | (Inr data, log') \<Rightarrow> parseFileSources w (FileSources input) data log')"

text \<open>
  The struct literal that \<open>readInput\<close> builds before \<^verbatim>\<open>yaml.Unmarshal\<close> fills it: every
  field has its zero value, the annotations are an empty map.
\<close>

definition newSopsSecretGenerator :: SopsSecretGenerator where
  "newSopsSecretGenerator =
     \<lparr>TypeMeta = \<lparr>APIVersion = [], Kind = []\<rparr>,
      ObjectMeta = \<lparr>Name = [], Namespace = [], Labels = Map.empty, Annotations = Map.empty\<rparr>,
      EnvSources = [], FileSources = [], Behavior = [],
      DisableNameSuffixHash = False, Type = []\<rparr>"

definition readInput :: "world \<Rightarrow> string \<Rightarrow> error + SopsSecretGenerator" where
  "readInput w manifestContent =
     (case yamlUnmarshalInput w manifestContent newSopsSecretGenerator of
        Inl err \<Rightarrow> Inl err
      | Inr input \<Rightarrow>
          if APIVersion (TypeMeta input) \<noteq> apiVersion \<or> Kind (TypeMeta input) \<noteq> kind
          then Inl BadApiVersionKind
          else if Name (ObjectMeta input) = [] then Inl MissingName
          else Inr input)"

definition generateSecret ::
  "world \<Rightarrow> SopsSecretGenerator \<Rightarrow> event list \<Rightarrow> (error + Secret) \<times> event list" where
  "generateSecret w sopsSecret log =
     (case parseInput w sopsSecret log of
        (Inl err, log') \<Rightarrow> (Inl err, log')
      | (Inr data, log') \<Rightarrow>
          (let annotations0 =
                 (\<lambda>k. if k \<in> stripAnnotations then None
                      else Annotations (ObjectMeta sopsSecret) k);
               annotations1 =
                 (if \<not> DisableNameSuffixHash sopsSecret
                  then annotations0(''kustomize.config.k8s.io/needs-hash'' \<mapsto> ''true'')
                  else annotations0);
               annotations =
                 (if Behavior sopsSecret \<noteq> []
                  then annotations1(''kustomize.config.k8s.io/behavior'' \<mapsto> Behavior sopsSecret)
                  else annotations1)
           in (Inr \<lparr>SecretTypeMeta = \<lparr>APIVersion = ''v1'', Kind = ''Secret''\<rparr>,
                    SecretObjectMeta =
                      \<lparr>Name = Name (ObjectMeta sopsSecret),
                       Namespace = Namespace (ObjectMeta sopsSecret),
                       Labels = Labels (ObjectMeta sopsSecret),
                       Annotations = annotations\<rparr>,
                    Data = data,
                    SecretType = Type sopsSecret\<rparr>, log')))"

definition processSopsSecretGenerator ::
  "world \<Rightarrow> string \<Rightarrow> event list \<Rightarrow> (error + string) \<times> event list" where
  "processSopsSecretGenerator w manifestContent log =
     (case readInput w manifestContent of
        Inl err \<Rightarrow> (Inl err, log)
      | Inr input \<Rightarrow>
          (case generateSecret w input log of
             (Inl err, log') \<Rightarrow> (Inl err, log')
           | (Inr secret, log') \<Rightarrow>
               (case yamlMarshal w secret of
                  Inl err \<Rightarrow> (Inl err, log')
                | Inr output \<Rightarrow> (Inr output, log'))))"

text \<open>\<^verbatim>\<open>rl.LogResult(err)\<close> appends the error to the results of the list.\<close>

definition LogResult :: "ResourceList \<Rightarrow> error \<Rightarrow> ResourceList" where
  "LogResult rl err = rl\<lparr>Results := Results rl @ [err]\<rparr>"

text \<open>
  The loop of \<open>generateKRMManifest\<close> over \<^verbatim>\<open>rl.Items\<close>, with the local
  \<^verbatim>\<open>generatedSecrets\<close> as accumulator. The result is the resource list as the
  function leaves it, the success flag and the returned error.
\<close>

fun generateLoop ::
  "world \<Rightarrow> KubeObject list \<Rightarrow> KubeObject list \<Rightarrow> ResourceList \<Rightarrow> event list
   \<Rightarrow> (ResourceList \<times> bool \<times> error option) \<times> event list" where
  "generateLoop w [] generatedSecrets rl log =
     ((rl\<lparr>Items := generatedSecrets\<rparr>, True, None), log)"
| "generateLoop w (sopsSecretGeneratorManifest # items) generatedSecrets rl log =
     (case processSopsSecretGenerator w (KubeObjectString w sopsSecretGeneratorManifest) log of
        (Inl err, log') \<Rightarrow> ((LogResult rl err, False, Some err), log')
      | (Inr secretManifest, log') \<Rightarrow>
          (case ParseKubeObject w secretManifest of
             Inl err \<Rightarrow> ((LogResult rl err, False, Some err), log')
           | Inr secretKubeObject \<Rightarrow>
               generateLoop w items (generatedSecrets @ [secretKubeObject]) rl log'))"

definition generateKRMManifest ::
  "world \<Rightarrow> ResourceList \<Rightarrow> event list \<Rightarrow> (ResourceList \<times> bool \<times> error option) \<times> event list" where
  "generateKRMManifest w rl log = generateLoop w (Items rl) [] rl log"

subsection \<open>Sources taken one at a time\<close>

text \<open>
  The outcome of one source processed on its own, from an empty data map and an
  empty log: whether it succeeds, the entries it produces and the events it causes.
\<close>

definition envSourceOutcome :: "world \<Rightarrow> string \<Rightarrow> (error + kvMap) \<times> event list" where
  "envSourceOutcome w source = parseEnvSource w source Map.empty []"

definition fileSourceOutcome :: "world \<Rightarrow> string \<Rightarrow> (error + kvMap) \<times> event list" where
  "fileSourceOutcome w source = parseFileSource w source Map.empty []"

definition succeeds :: "(error + kvMap) \<times> event list \<Rightarrow> bool" where
  "succeeds outcome = (case fst outcome of Inr m \<Rightarrow> True | Inl err \<Rightarrow> False)"

definition entries :: "(error + kvMap) \<times> event list \<Rightarrow> kvMap" where
  "entries outcome = (case fst outcome of Inr m \<Rightarrow> m | Inl err \<Rightarrow> Map.empty)"

definition events :: "(error + kvMap) \<times> event list \<Rightarrow> event list" where
  "events outcome = snd outcome"

subsection \<open>An example world\<close>

text \<open>
  A file system with the two encrypted files \<open>a.env\<close> (the dotenv text \<open>FOO=secret\<close>)
  and \<open>plain.txt\<close> (the text \<open>secret\<close> and a line feed), and three input documents:
  \<open>good\<close> is a valid request with one env source and two file sources, the second
  of which writes the key \<open>FOO\<close> again; \<open>wrong-kind\<close> is the same request with the
  kind \<open>Secret\<close>; \<open>annotated\<close> is a request without sources that disables the name
  suffix hash and carries the needs-hash annotation itself.
\<close>

definition exampleGenerator :: SopsSecretGenerator where
  "exampleGenerator =
     \<lparr>TypeMeta = \<lparr>APIVersion = apiVersion, Kind = kind\<rparr>,
      ObjectMeta = \<lparr>Name = ''my-secret'', Namespace = [], Labels = Map.empty,
                    Annotations = [''config.kubernetes.io/function'' \<mapsto> ''exec'',
                                   ''config.kubernetes.io/local-config'' \<mapsto> ''true'',
                                   ''created-by'' \<mapsto> ''me'']\<rparr>,
      EnvSources = [''a.env''],
      FileSources = [''secret-file.txt=plain.txt'', ''FOO=plain.txt''],
      Behavior = [], DisableNameSuffixHash = False, Type = []\<rparr>"

definition annotatedGenerator :: SopsSecretGenerator where
  "annotatedGenerator =
     \<lparr>TypeMeta = \<lparr>APIVersion = apiVersion, Kind = kind\<rparr>,
      ObjectMeta = \<lparr>Name = ''my-secret'', Namespace = [], Labels = Map.empty,
                    Annotations = [''kustomize.config.k8s.io/needs-hash'' \<mapsto> ''true'']\<rparr>,
      EnvSources = [], FileSources = [],
      Behavior = [], DisableNameSuffixHash = True, Type = []\<rparr>"

definition exampleWorld :: world where
  "exampleWorld =
     \<lparr>osReadFile = (\<lambda>path.
        if path = ''a.env'' then Inr ''ENC[a.env]''
        else if path = ''plain.txt'' then Inr ''ENC[plain.txt]''
        else Inl (ExternalError ''no such file'')),
      decryptDataWithFormat = (\<lambda>content format.
        if content = ''ENC[a.env]'' then Inr ''FOO=secret''
        else if content = ''ENC[plain.txt]'' then Inr (''secret'' @ [CHR 0x0A])
        else Inl (ExternalError ''no key'')),
      FormatForPath = (\<lambda>path. if path = ''a.env'' then Dotenv else Binary),
      yamlUnmarshalInput = (\<lambda>content input.
        if content = ''good'' then Inr exampleGenerator
        else if content = ''wrong-kind''
          then Inr (exampleGenerator\<lparr>TypeMeta := \<lparr>APIVersion = apiVersion, Kind = ''Secret''\<rparr>\<rparr>)
        else if content = ''annotated'' then Inr annotatedGenerator
        else Inl (ExternalError ''yaml'')),
      yamlUnmarshalMap = (\<lambda>content. Inl (ExternalError ''yaml'')),
      jsonUnmarshalMap = (\<lambda>content. Inl (ExternalError ''json'')),
      yamlMarshal = (\<lambda>secret. Inr (''Secret/'' @ Name (SecretObjectMeta secret))),
      KubeObjectString = (\<lambda>obj. case obj of KubeObject text \<Rightarrow> text),
      ParseKubeObject = (\<lambda>text. Inr (KubeObject text))\<rparr>"

definition exampleResourceList :: ResourceList where
  "exampleResourceList = \<lparr>Items = [KubeObject ''good'', KubeObject ''wrong-kind''], Results = []\<rparr>"

section \<open>Verification\<close>

subsection \<open>Splitting and base names\<close>


lemma IndexByte_None_iff: "IndexByte s c = None \<longleftrightarrow> c \<notin> set s"
  by (induction s) auto

lemma IndexByte_append: "c \<notin> set k \<Longrightarrow> IndexByte (k @ c # v) c = Some (length k)"
  by (induction k) auto

lemma IndexByte_SomeD:
  "IndexByte s c = Some m \<Longrightarrow> m < length s \<and> s ! m = c \<and> c \<notin> set (take m s)"
proof (induction s arbitrary: m)
  case Nil
  then show ?case by simp
next
  case (Cons x xs)
  show ?case
  proof (cases "x = c")
    case True
    with Cons.prems show ?thesis by simp
  next
    case False
    with Cons.prems obtain m' where m': "IndexByte xs c = Some m'" "m = Suc m'"
      by auto
    from Cons.IH [OF m'(1)] False m'(2) show ?thesis by simp
  qed
qed

lemma Count_zero_iff: "Count s c = 0 \<longleftrightarrow> c \<notin> set s"
  by (auto simp: Count_def filter_empty_conv)

lemma Count_append: "Count (k @ v) c = Count k c + Count v c"
  by (simp add: Count_def)

lemma Count_Cons_sep: "Count (c # v) c = Suc (Count v c)"
  by (simp add: Count_def)

lemma Split_no_sep: "c \<notin> set s \<Longrightarrow> Split s c = [s]"
  using Count_zero_iff [of s c] by (simp add: Split_def)

lemma Split_one_sep:
  assumes "c \<notin> set k" "c \<notin> set v"
  shows "Split (k @ c # v) c = [k, v]"
proof -
  have "Count (k @ c # v) c = 1"
    using assms Count_zero_iff [of k c] Count_zero_iff [of v c]
    by (simp add: Count_append Count_Cons_sep)
  then show ?thesis
    using assms by (simp add: Split_def IndexByte_append)
qed

lemma length_genSplit:
  "n \<le> Count s c \<Longrightarrow> length (genSplit s c (Suc n)) = Suc n"
proof (induction n arbitrary: s)
  case 0
  then show ?case by simp
next
  case (Suc n)
  then have "c \<in> set s"
    using Count_zero_iff [of s c] by auto
  then obtain m where m: "IndexByte s c = Some m"
    using IndexByte_None_iff [of s c] by auto
  from IndexByte_SomeD [OF m] have s: "s = take m s @ c # drop (m + 1) s" and notin: "c \<notin> set (take m s)"
    using id_take_nth_drop [of m s] by simp_all
  have "Count s c = Count (take m s) c + Suc (Count (drop (m + 1) s) c)"
    by (subst s) (simp only: Count_append Count_Cons_sep)
  with notin Count_zero_iff [of "take m s" c] Suc.prems have "n \<le> Count (drop (m + 1) s) c"
    by simp
  from Suc.IH [OF this] m show ?case by simp
qed

lemma length_Split: "length (Split s c) = Count s c + 1"
  by (simp add: Split_def length_genSplit)

lemma stripTrailingSlashes_no_slash:
  "s \<noteq> [] \<Longrightarrow> last s \<noteq> CHR ''/'' \<Longrightarrow> stripTrailingSlashes s = s"
  by (subst stripTrailingSlashes.simps) (simp add: last_conv_nth)

lemma LastIndexByte_None_iff: "LastIndexByte s c = None \<longleftrightarrow> c \<notin> set s"
  by (induction s) (auto split: option.splits)

lemma LastIndexByte_append: "c \<notin> set b \<Longrightarrow> LastIndexByte (d @ c # b) c = Some (length d)"
  using LastIndexByte_None_iff [of b c] by (induction d) (auto split: option.splits)

lemma Base_plain:
  assumes "s \<noteq> []" "CHR ''/'' \<notin> set s"
  shows "Base s = s"
proof -
  have "last s \<noteq> CHR ''/''"
    by (metis assms last_in_set)
  then have "stripTrailingSlashes s = s"
    using assms by (simp add: stripTrailingSlashes_no_slash)
  then show ?thesis
    using assms LastIndexByte_None_iff [of s "CHR ''/''"] by (simp add: Base_def Let_def)
qed

lemma Base_last_segment:
  assumes "b \<noteq> []" "CHR ''/'' \<notin> set b"
  shows "Base (d @ CHR ''/'' # b) = b"
proof -
  have "last (d @ CHR ''/'' # b) \<noteq> CHR ''/''"
    using assms by (metis last_appendR last_ConsR last_in_set list.distinct(1))
  then have "stripTrailingSlashes (d @ CHR ''/'' # b) = d @ CHR ''/'' # b"
    by (simp add: stripTrailingSlashes_no_slash)
  then show ?thesis
    using assms by (simp add: Base_def Let_def LastIndexByte_append)
qed

lemma parseFileName_pair:
  assumes "CHR ''='' \<notin> set key" and "CHR ''='' \<notin> set fn" and "key \<noteq> []" and "fn \<noteq> []"
  shows "parseFileName (key @ CHR ''='' # fn) = Inr (key, fn)"
  using assms by (simp add: parseFileName_def Split_one_sep)

text \<open>
  Claim C3. A file-source descriptor without \<open>=\<close> is its own path, with the key
  \<open>path.Base\<close> of the descriptor (by \<open>Base_last_segment\<close> and \<open>Base_plain\<close> the
  final path segment); with exactly one \<open>=\<close> it splits into the key before and
  the path after, and fails naming the missing side when one of them is empty;
  with more than one \<open>=\<close> it fails with the ambiguous-delimiter error.
\<close>

theorem parseFileName_spec:
  "(Count source (CHR ''='') = 0 \<longrightarrow> parseFileName source = Inr (Base source, source)) \<and>
   (CHR ''='' \<notin> set key \<and> CHR ''='' \<notin> set fn \<longrightarrow>
      parseFileName (key @ CHR ''='' # fn) =
        (if key = [] then Inl (KeyNameMissing fn)
         else if fn = [] then Inl (FilePathMissing key)
         else Inr (key, fn))) \<and>
   (Count source (CHR ''='') > 1 \<longrightarrow> parseFileName source = Inl AmbiguousDelimiter)"
proof (intro conjI impI)
  assume "Count source (CHR ''='') = 0"
  then show "parseFileName source = Inr (Base source, source)"
    by (simp add: parseFileName_def length_Split)
next
  assume "CHR ''='' \<notin> set key \<and> CHR ''='' \<notin> set fn"
  then show "parseFileName (key @ CHR ''='' # fn) =
        (if key = [] then Inl (KeyNameMissing fn)
         else if fn = [] then Inl (FilePathMissing key)
         else Inr (key, fn))"
    by (simp add: parseFileName_def Split_one_sep)
next
  assume "Count source (CHR ''='') > 1"
  then show "parseFileName source = Inl AmbiguousDelimiter"
    by (simp add: parseFileName_def length_Split)
qed

theorem parseFileName_spec_witness:
  "parseFileName ''dir/bar.txt'' = Inr (''bar.txt'', ''dir/bar.txt'') \<and>
   parseFileName ''foo=bar.txt'' = Inr (''foo'', ''bar.txt'') \<and>
   parseFileName ''=bar.txt'' = Inl (KeyNameMissing ''bar.txt'') \<and>
   parseFileName ''foo='' = Inl (FilePathMissing ''foo'') \<and>
   parseFileName ''a=b=c'' = Inl AmbiguousDelimiter"
  using parseFileName_spec [of "''dir/bar.txt''" "''foo''" "''bar.txt''"]
        parseFileName_spec [of "''a=b=c''" "[]" "''bar.txt''"]
        parseFileName_spec [of "''a=b=c''" "''foo''" "[]"]
        Base_last_segment [of "''bar.txt''" "''dir''"]
  by (simp add: Count_def)

subsection \<open>The dotenv line parser\<close>


lemma SplitN_two_sep:
  "c \<notin> set k \<Longrightarrow> SplitN (k @ c # v) c 2 = [k, v]"
  by (simp add: SplitN_def numeral_2_eq_2 IndexByte_append)

lemma SplitN_two_no_sep:
  "c \<notin> set s \<Longrightarrow> SplitN s c 2 = [s]"
  using IndexByte_None_iff [of s c] by (simp add: SplitN_def numeral_2_eq_2)

lemma TrimLeftSpace_suffix: "\<exists>ws. s = ws @ TrimLeftSpace s"
proof (induction s rule: TrimLeftSpace.induct)
  case (1 s)
  show ?case
  proof (cases "s = []")
    case True
    then show ?thesis by (simp add: TrimLeftSpace.simps)
  next
    case False
    obtain r wid where rw:
      "(r, wid) = (if (of_char (s ! 0) :: nat) < 0x80 then (of_char (s ! 0), 1) else DecodeRune s)"
      by (metis surj_pair)
    show ?thesis
    proof (cases "IsSpace r")
      case True
      from "1.IH" [OF False rw refl True] obtain ws where "drop wid s = ws @ TrimLeftSpace (drop wid s)"
        by blast
      then have "s = (take wid s @ ws) @ TrimLeftSpace (drop wid s)"
        by (metis append_take_drop_id append.assoc)
      moreover have "TrimLeftSpace s = TrimLeftSpace (drop wid s)"
        using False True rw [symmetric] by (subst TrimLeftSpace.simps) (simp add: Let_def)
      ultimately show ?thesis by metis
    next
      case notsp: False
      have "TrimLeftSpace s = s"
        using False notsp rw [symmetric] by (subst TrimLeftSpace.simps) (simp add: Let_def)
      then show ?thesis by simp
    qed
  qed
qed

lemma parseDotEnvLine_pair:
  assumes "Valid line"
    and "TrimLeftSpace line = key @ CHR ''='' # v"
    and "CHR ''='' \<notin> set key"
    and "hd (TrimLeftSpace line) \<noteq> CHR ''#''"
  shows "parseDotEnvLine line data = Inr (data(key \<mapsto> EncodeToString v))"
proof -
  have "(key @ CHR ''='' # v) ! 0 \<noteq> CHR ''#''"
    using assms(2,4) by (cases key) auto
  then show ?thesis
    using assms(1,2,3) by (simp add: parseDotEnvLine_def Let_def SplitN_two_sep)
qed

lemma parseDotEnvLine_skip:
  assumes "Valid line"
    and "TrimLeftSpace line = [] \<or> hd (TrimLeftSpace line) = CHR ''#''"
  shows "parseDotEnvLine line data = Inr data"
  using assms by (cases "TrimLeftSpace line") (auto simp: parseDotEnvLine_def Let_def)

lemma parseDotEnvLine_requires_value:
  assumes "Valid line"
    and "TrimLeftSpace line \<noteq> []"
    and "hd (TrimLeftSpace line) \<noteq> CHR ''#''"
    and "CHR ''='' \<notin> set (TrimLeftSpace line)"
  shows "parseDotEnvLine line data = Inl (RequiresValue (TrimLeftSpace line))"
  using assms
  by (cases "TrimLeftSpace line") (auto simp: parseDotEnvLine_def Let_def SplitN_two_no_sep)

text \<open>
  Claim C2 (amended). For every dotenv line that is valid UTF-8 and that, after
  stripping leading whitespace, is non-blank, does not start with \<open>#\<close> and
  contains an \<open>=\<close>, the line is split at the first \<open>=\<close> only: the key is the part
  before it, and the stored value is the base64 encoding of all the bytes after
  it, unchanged.
\<close>

theorem parseDotEnvLine_key_value:
  assumes "Valid line"
    and "TrimLeftSpace line = key @ CHR ''='' # v"
    and "CHR ''='' \<notin> set key"
    and "hd (TrimLeftSpace line) \<noteq> CHR ''#''"
  shows "parseDotEnvLine line data = Inr (data(key \<mapsto> EncodeToString v))"
  using assms by (rule parseDotEnvLine_pair)

theorem parseDotEnvLine_key_value_witness:
  "parseDotEnvLine ''  FOO=a=b '' Map.empty = Inr [''FOO'' \<mapsto> ''YT1iIA=='']"
  using parseDotEnvLine_key_value [of "''  FOO=a=b ''" "''FOO''" "''a=b ''" Map.empty]
  by (simp add: Valid.simps TrimLeftSpace.simps IsSpace_def enc_def encodeStd_def)

text \<open>
  The line \<open>A=\<close> followed by the byte \<open>0xFF\<close> satisfies the conditions of claim C2 as
  stated, and is rejected as invalid UTF-8.
\<close>

theorem parseDotEnvLine_invalid_utf8_counterexample:
  "TrimLeftSpace [CHR ''A'', CHR ''='', CHR 0xFF] = [CHR ''A'', CHR ''='', CHR 0xFF] \<and>
   parseDotEnvLine [CHR ''A'', CHR ''='', CHR 0xFF] Map.empty
     = Inl (InvalidUTF8 [CHR ''A'', CHR ''='', CHR 0xFF])"
  by (simp add: parseDotEnvLine_def Valid.simps TrimLeftSpace.simps IsSpace_def first_def)

text \<open>
  Claim C9 (amended). A dotenv line that is valid UTF-8 and whose first
  non-whitespace character is \<open>=\<close> is accepted: the base64 encoding of the bytes
  after that \<open>=\<close> is stored under the empty key.
\<close>

theorem parseDotEnvLine_empty_key:
  assumes "Valid line" and "TrimLeftSpace line = CHR ''='' # v"
  shows "parseDotEnvLine line data = Inr (data([] \<mapsto> EncodeToString v))"
  using assms parseDotEnvLine_pair [of line "[]" v data] by simp

theorem parseDotEnvLine_empty_key_witness:
  "parseDotEnvLine '' =secret'' Map.empty = Inr [[] \<mapsto> ''c2VjcmV0'']"
  using parseDotEnvLine_empty_key [of "'' =secret''" "''secret''" Map.empty]
  by (simp add: Valid.simps TrimLeftSpace.simps IsSpace_def enc_def encodeStd_def)

text \<open>
  The line \<open>=\<close> followed by the byte \<open>0xFF\<close> starts with \<open>=\<close> and is rejected, as
  invalid UTF-8.
\<close>

theorem parseDotEnvLine_empty_key_counterexample:
  "TrimLeftSpace [CHR ''='', CHR 0xFF] = [CHR ''='', CHR 0xFF] \<and>
   parseDotEnvLine [CHR ''='', CHR 0xFF] Map.empty = Inl (InvalidUTF8 [CHR ''='', CHR 0xFF])"
  by (simp add: parseDotEnvLine_def Valid.simps TrimLeftSpace.simps IsSpace_def first_def)

subsection \<open>The line scanner and the dotenv content parser\<close>

lemma dropCR_alt: "dropCR l = (if l \<noteq> [] \<and> last l = CHR 0x0D then butlast l else l)"
  by (cases "l = []") (simp_all add: dropCR_def last_conv_nth butlast_conv_take)

lemma dropCR_snoc: "dropCR (l @ [CHR 0x0D]) = l"
  by (simp add: dropCR_alt)

lemma dropCR_no_CR: "l = [] \<or> last l \<noteq> CHR 0x0D \<Longrightarrow> dropCR l = l"
  by (auto simp: dropCR_alt)

lemma dropCR_append: "l \<noteq> [] \<Longrightarrow> dropCR (p @ l) = p @ dropCR l"
  by (simp add: dropCR_alt butlast_append)

lemma Scan_empty: "Scan [] = Stop None"
  by (simp add: Scan_def ScanLines_def maxScanTokenSize_def)

lemma Scan_line:
  assumes "CHR 0x0A \<notin> set l" and "length l < maxScanTokenSize"
  shows "Scan (l @ CHR 0x0A # rest) = Token (dropCR l) rest"
proof -
  let ?u = "l @ CHR 0x0A # rest"
  let ?buf = "take maxScanTokenSize ?u"
  have buf: "?buf = l @ CHR 0x0A # take (maxScanTokenSize - length l - 1) rest"
    using assms(2) by (simp add: take_Cons')
  have idx: "IndexByte ?buf (CHR 0x0A) = Some (length l)"
    unfolding buf using assms(1) by (rule IndexByte_append)
  have tk: "take (length l) ?buf = l"
    unfolding buf by simp
  have "ScanLines ?buf (length ?u < maxScanTokenSize) = (length l + 1, Some (dropCR l))"
    unfolding ScanLines_def idx using tk buf by simp
  then show ?thesis
    unfolding Scan_def Let_def by simp
qed

lemma Scan_final:
  assumes "CHR 0x0A \<notin> set l" and "length l < maxScanTokenSize" and "l \<noteq> []"
  shows "Scan l = Token (dropCR l) []"
proof -
  have "IndexByte l (CHR 0x0A) = None"
    using assms(1) by (simp add: IndexByte_None_iff)
  then have "ScanLines l True = (length l, Some (dropCR l))"
    using assms(3) by (simp add: ScanLines_def)
  then show ?thesis
    using assms(2) by (simp add: Scan_def Let_def)
qed

lemma Scan_too_long:
  assumes "CHR 0x0A \<notin> set (take maxScanTokenSize unread)"
    and "maxScanTokenSize \<le> length unread"
  shows "Scan unread = Stop (Some ErrTooLong)"
proof -
  have "IndexByte (take maxScanTokenSize unread) (CHR 0x0A) = None"
    using assms(1) by (simp add: IndexByte_None_iff)
  then have "ScanLines (take maxScanTokenSize unread) False = (0, None)"
    by (simp add: ScanLines_def)
  then show ?thesis
    using assms(2) by (simp add: Scan_def Let_def)
qed

lemma Scan_Token_shorter:
  "Scan unread = Token token unread' \<Longrightarrow> length unread' < length unread"
  by (auto simp: Scan_def ScanLines_def Let_def maxScanTokenSize_def
           split: if_splits option.splits prod.splits)

lemma parseDotEnvLoop_Nil: "parseDotEnvLoop [] n data = Inr data"
  by (subst parseDotEnvLoop.simps) (simp add: Scan_empty)

lemma parseDotEnvLoop_line:
  assumes "CHR 0x0A \<notin> set l" and "length l < maxScanTokenSize"
  shows "parseDotEnvLoop (l @ CHR 0x0A # rest) n data =
     (case parseDotEnvLine (if n = 0 then TrimPrefix (dropCR l) utf8bom else dropCR l) data of
        Inl err \<Rightarrow> Inl (LineErr n err)
      | Inr data' \<Rightarrow> parseDotEnvLoop rest (n + 1) data')"
  by (subst parseDotEnvLoop.simps) (simp add: Scan_line [OF assms] Let_def)

lemma parseDotEnvLoop_final:
  assumes "CHR 0x0A \<notin> set l" and "length l < maxScanTokenSize" and "l \<noteq> []"
  shows "parseDotEnvLoop l n data =
     (case parseDotEnvLine (if n = 0 then TrimPrefix (dropCR l) utf8bom else dropCR l) data of
        Inl err \<Rightarrow> Inl (LineErr n err)
      | Inr data' \<Rightarrow> Inr data')"
  by (subst parseDotEnvLoop.simps)
     (simp add: Scan_final [OF assms] Let_def parseDotEnvLoop_Nil cong: sum.case_cong)

lemma parseDotEnvLoop_too_long:
  assumes "CHR 0x0A \<notin> set (take maxScanTokenSize unread)"
    and "maxScanTokenSize \<le> length unread"
  shows "parseDotEnvLoop unread n data = Inl ErrTooLong"
  by (subst parseDotEnvLoop.simps) (simp add: Scan_too_long [OF assms])

lemma TrimPrefix_append: "TrimPrefix (pre @ s) pre = s"
  by (simp add: TrimPrefix_def)

lemma TrimPrefix_dropCR_no_bom:
  assumes "take (length utf8bom) l \<noteq> utf8bom"
  shows "TrimPrefix (dropCR l) utf8bom = dropCR l"
proof -
  have "take (length utf8bom) (dropCR l) \<noteq> utf8bom"
  proof
    assume eq: "take (length utf8bom) (dropCR l) = utf8bom"
    then have "length utf8bom \<le> length (dropCR l)"
      by (metis length_take min.cobounded1 min.commute)
    moreover have "dropCR l = take (length (dropCR l)) l"
      by (simp add: dropCR_alt butlast_conv_take)
    ultimately have "take (length utf8bom) (dropCR l) = take (length utf8bom) l"
      by (metis min.absorb1 take_take)
    with eq assms show False
      by simp
  qed
  then show ?thesis
    by (simp add: TrimPrefix_def)
qed

lemma TrimPrefix_utf8bom_ascii: "(of_char c :: nat) < 0x80 \<Longrightarrow> TrimPrefix (c # s) utf8bom = c # s"
  by (auto simp: TrimPrefix_def utf8bom_def)

text \<open>Concrete lines, used by the examples below.\<close>

lemma line_A_1: "parseDotEnvLine ''A=1'' data = Inr (data(''A'' \<mapsto> ''MQ==''))"
  using parseDotEnvLine_pair [of "''A=1''" "''A''" "''1''" data]
  by (simp add: Valid.simps TrimLeftSpace.simps IsSpace_def enc_def encodeStd_def)

lemma line_X_0: "parseDotEnvLine ''X=0'' data = Inr (data(''X'' \<mapsto> ''MA==''))"
  using parseDotEnvLine_pair [of "''X=0''" "''X''" "''0''" data]
  by (simp add: Valid.simps TrimLeftSpace.simps IsSpace_def enc_def encodeStd_def)

lemma line_bom_A_1:
  "parseDotEnvLine (CHR 0xEF # CHR 0xBB # CHR 0xBF # ''A=1'') data
     = Inr (data(CHR 0xEF # CHR 0xBB # CHR 0xBF # ''A'' \<mapsto> ''MQ==''))"
  using parseDotEnvLine_pair [of "CHR 0xEF # CHR 0xBB # CHR 0xBF # ''A=1''"
          "CHR 0xEF # CHR 0xBB # CHR 0xBF # ''A''" "''1''" data]
  by (simp add: Valid.simps TrimLeftSpace.simps DecodeRune_def first_def inRange_def
        IsSpace_def enc_def encodeStd_def)

lemma line_A_b_CR:
  "parseDotEnvLine [CHR ''A'', CHR ''='', CHR ''b'', CHR 0x0D] data
     = Inr (data(''A'' \<mapsto> ''Yg0=''))"
  using parseDotEnvLine_pair [of "[CHR ''A'', CHR ''='', CHR ''b'', CHR 0x0D]" "''A''"
          "[CHR ''b'', CHR 0x0D]" data]
  by (simp add: Valid.simps TrimLeftSpace.simps IsSpace_def enc_def encodeStd_def)

lemma line_A_b: "parseDotEnvLine ''A=b'' data = Inr (data(''A'' \<mapsto> ''Yg==''))"
  using parseDotEnvLine_pair [of "''A=b''" "''A''" "''b''" data]
  by (simp add: Valid.simps TrimLeftSpace.simps IsSpace_def enc_def encodeStd_def)

lemma parseDotEnvLoop_too_long_line:
  assumes "CHR 0x0A \<notin> set l" and "maxScanTokenSize \<le> length l"
  shows "parseDotEnvLoop (l @ rest) n data = Inl ErrTooLong"
proof -
  have "take maxScanTokenSize (l @ rest) = take maxScanTokenSize l"
    using assms(2) by simp
  then have "CHR 0x0A \<notin> set (take maxScanTokenSize (l @ rest))"
    using assms(1) by (auto dest: in_set_takeD)
  moreover have "maxScanTokenSize \<le> length (l @ rest)"
    using assms(2) by simp
  ultimately show ?thesis
    by (rule parseDotEnvLoop_too_long)
qed

lemma Valid_ascii: "\<forall>c\<in>set s. (of_char c :: nat) < 0x80 \<Longrightarrow> Valid s"
proof (induction s)
  case Nil
  then show ?case by (simp add: Valid.simps)
next
  case (Cons c s)
  then show ?case by (subst Valid.simps) simp
qed

lemma TrimLeftSpace_ascii_nonspace:
  assumes "(of_char c :: nat) < 0x80" and "\<not> IsSpace (of_char c)"
  shows "TrimLeftSpace (c # s) = c # s"
  using assms by (subst TrimLeftSpace.simps) simp

lemma line_A_long:
  "parseDotEnvLine (CHR ''A'' # CHR ''='' # replicate k (CHR ''x'')) data
     = Inr (data(''A'' \<mapsto> EncodeToString (replicate k (CHR ''x''))))"
proof -
  have v: "Valid (CHR ''A'' # CHR ''='' # replicate k (CHR ''x''))"
    by (rule Valid_ascii) auto
  have t: "TrimLeftSpace (CHR ''A'' # CHR ''='' # replicate k (CHR ''x''))
             = ''A'' @ CHR ''='' # replicate k (CHR ''x'')"
    using TrimLeftSpace_ascii_nonspace [of "CHR ''A''" "CHR ''='' # replicate k (CHR ''x'')"]
    by (simp add: IsSpace_def)
  show ?thesis
    using parseDotEnvLine_pair [OF v t, of data] t by simp
qed

lemma dropCR_A_long:
  "dropCR (CHR ''A'' # CHR ''='' # replicate k (CHR ''x'')) = CHR ''A'' # CHR ''='' # replicate k (CHR ''x'')"
  by (rule dropCR_no_CR) (cases k, simp_all)

lemma utf8bom_line:
  assumes "CHR 0x0A \<notin> set l"
  shows "(length (utf8bom @ l) < maxScanTokenSize \<longrightarrow>
           parseDotEnvLoop (utf8bom @ l @ CHR 0x0A # rest) 0 data =
             (case parseDotEnvLine (dropCR l) data of
                Inl err \<Rightarrow> Inl (LineErr 0 err)
              | Inr data' \<Rightarrow> parseDotEnvLoop rest 1 data') \<and>
           parseDotEnvLoop (utf8bom @ l) 0 data =
             (case parseDotEnvLine (dropCR l) data of
                Inl err \<Rightarrow> Inl (LineErr 0 err)
              | Inr data' \<Rightarrow> Inr data') \<and>
           (1 \<le> n \<longrightarrow>
              parseDotEnvLoop (utf8bom @ l @ CHR 0x0A # rest) n data =
                (case parseDotEnvLine (utf8bom @ dropCR l) data of
                   Inl err \<Rightarrow> Inl (LineErr n err)
                 | Inr data' \<Rightarrow> parseDotEnvLoop rest (n + 1) data') \<and>
              parseDotEnvLoop (utf8bom @ l) n data =
                (case parseDotEnvLine (utf8bom @ dropCR l) data of
                   Inl err \<Rightarrow> Inl (LineErr n err)
                 | Inr data' \<Rightarrow> Inr data'))) \<and>
         (length l < maxScanTokenSize \<and> take 3 l \<noteq> utf8bom \<longrightarrow>
           parseDotEnvLoop (l @ CHR 0x0A # rest) 0 data =
             (case parseDotEnvLine (dropCR l) data of
                Inl err \<Rightarrow> Inl (LineErr 0 err)
              | Inr data' \<Rightarrow> parseDotEnvLoop rest 1 data') \<and>
           (l \<noteq> [] \<longrightarrow>
              parseDotEnvLoop l 0 data =
                (case parseDotEnvLine (dropCR l) data of
                   Inl err \<Rightarrow> Inl (LineErr 0 err)
                 | Inr data' \<Rightarrow> Inr data'))) \<and>
         (maxScanTokenSize \<le> length (utf8bom @ l) \<longrightarrow>
           parseDotEnvLoop (utf8bom @ l @ CHR 0x0A # rest) n data = Inl ErrTooLong \<and>
           parseDotEnvLoop (utf8bom @ l) n data = Inl ErrTooLong)"
proof (intro conjI impI)
  have nl: "CHR 0x0A \<notin> set (utf8bom @ l)"
    using assms by (simp add: utf8bom_def)
  have ne: "utf8bom @ l \<noteq> []"
    by (simp add: utf8bom_def)
  have cr: "dropCR (utf8bom @ l) = utf8bom @ dropCR l"
    by (cases "l = []") (simp_all add: dropCR_append, simp add: dropCR_alt utf8bom_def)
  {
    assume len: "length (utf8bom @ l) < maxScanTokenSize"
    show "parseDotEnvLoop (utf8bom @ l @ CHR 0x0A # rest) 0 data =
             (case parseDotEnvLine (dropCR l) data of
                Inl err \<Rightarrow> Inl (LineErr 0 err)
              | Inr data' \<Rightarrow> parseDotEnvLoop rest 1 data')"
      using parseDotEnvLoop_line [OF nl len, of rest 0 data]
      by (simp add: cr TrimPrefix_append cong: sum.case_cong)
    show "parseDotEnvLoop (utf8bom @ l) 0 data =
             (case parseDotEnvLine (dropCR l) data of
                Inl err \<Rightarrow> Inl (LineErr 0 err)
              | Inr data' \<Rightarrow> Inr data')"
      using parseDotEnvLoop_final [OF nl len ne, of 0 data]
      by (simp add: cr TrimPrefix_append)
    assume n: "1 \<le> n"
    show "parseDotEnvLoop (utf8bom @ l @ CHR 0x0A # rest) n data =
                (case parseDotEnvLine (utf8bom @ dropCR l) data of
                   Inl err \<Rightarrow> Inl (LineErr n err)
                 | Inr data' \<Rightarrow> parseDotEnvLoop rest (n + 1) data')"
      using parseDotEnvLoop_line [OF nl len, of rest n data] n
      by (simp add: cr)
    show "parseDotEnvLoop (utf8bom @ l) n data =
                (case parseDotEnvLine (utf8bom @ dropCR l) data of
                   Inl err \<Rightarrow> Inl (LineErr n err)
                 | Inr data' \<Rightarrow> Inr data')"
      using parseDotEnvLoop_final [OF nl len ne, of n data] n
      by (simp add: cr)
  }
  {
    assume a: "length l < maxScanTokenSize \<and> take 3 l \<noteq> utf8bom"
    have "length utf8bom = 3"
      by (simp add: utf8bom_def)
    with a have len: "length l < maxScanTokenSize"
      and plain: "TrimPrefix (dropCR l) utf8bom = dropCR l"
      by (simp_all add: TrimPrefix_dropCR_no_bom)
    show "parseDotEnvLoop (l @ CHR 0x0A # rest) 0 data =
             (case parseDotEnvLine (dropCR l) data of
                Inl err \<Rightarrow> Inl (LineErr 0 err)
              | Inr data' \<Rightarrow> parseDotEnvLoop rest 1 data')"
      using parseDotEnvLoop_line [OF assms len, of rest 0 data]
      by (simp add: plain cong: sum.case_cong)
    assume "l \<noteq> []"
    then show "parseDotEnvLoop l 0 data =
                (case parseDotEnvLine (dropCR l) data of
                   Inl err \<Rightarrow> Inl (LineErr 0 err)
                 | Inr data' \<Rightarrow> Inr data')"
      using parseDotEnvLoop_final [OF assms len, of 0 data]
      by (simp add: plain)
  }
  {
    assume long: "maxScanTokenSize \<le> length (utf8bom @ l)"
    show "parseDotEnvLoop (utf8bom @ l @ CHR 0x0A # rest) n data = Inl ErrTooLong"
      using parseDotEnvLoop_too_long_line [OF nl long, of "CHR 0x0A # rest" n data] by simp
    show "parseDotEnvLoop (utf8bom @ l) n data = Inl ErrTooLong"
      using parseDotEnvLoop_too_long_line [OF nl long, of "[]" n data] by simp
  }
qed

text \<open>
  Claim C8 (amended). Take a line, the bytes up to a line feed or up to the end of
  the content. When the line starts with the UTF-8 byte-order mark \<open>EF BB BF\<close> and
  has, the mark included, fewer than 65536 bytes, the line parser is given the
  line without the mark when it is line 0, and with the mark, as the first bytes
  of the line, when it is any later line; a line 0 of fewer than 65536 bytes that
  does not start with the mark is given to the line parser as it is. When the
  line with its mark has 65536 bytes or more, the extraction fails with the
  scanner's error, at line 0 as at any other line. (\<open>dropCR\<close> is the scanner's
  removal of one carriage return at the end of the line.)
\<close>

theorem utf8bom_only_first_line:
  assumes "CHR 0x0A \<notin> set l"
  shows "(length (CHR 0xEF # CHR 0xBB # CHR 0xBF # l) < 65536 \<longrightarrow>
           parseDotEnvLoop (CHR 0xEF # CHR 0xBB # CHR 0xBF # l @ CHR 0x0A # rest) 0 data =
             (case parseDotEnvLine (dropCR l) data of
                Inl err \<Rightarrow> Inl (LineErr 0 err)
              | Inr data' \<Rightarrow> parseDotEnvLoop rest 1 data') \<and>
           parseDotEnvLoop (CHR 0xEF # CHR 0xBB # CHR 0xBF # l) 0 data =
             (case parseDotEnvLine (dropCR l) data of
                Inl err \<Rightarrow> Inl (LineErr 0 err)
              | Inr data' \<Rightarrow> Inr data') \<and>
           (1 \<le> n \<longrightarrow>
              parseDotEnvLoop (CHR 0xEF # CHR 0xBB # CHR 0xBF # l @ CHR 0x0A # rest) n data =
                (case parseDotEnvLine (CHR 0xEF # CHR 0xBB # CHR 0xBF # dropCR l) data of
                   Inl err \<Rightarrow> Inl (LineErr n err)
                 | Inr data' \<Rightarrow> parseDotEnvLoop rest (n + 1) data') \<and>
              parseDotEnvLoop (CHR 0xEF # CHR 0xBB # CHR 0xBF # l) n data =
                (case parseDotEnvLine (CHR 0xEF # CHR 0xBB # CHR 0xBF # dropCR l) data of
                   Inl err \<Rightarrow> Inl (LineErr n err)
                 | Inr data' \<Rightarrow> Inr data'))) \<and>
         (length l < 65536 \<and> take 3 l \<noteq> [CHR 0xEF, CHR 0xBB, CHR 0xBF] \<longrightarrow>
           parseDotEnvLoop (l @ CHR 0x0A # rest) 0 data =
             (case parseDotEnvLine (dropCR l) data of
                Inl err \<Rightarrow> Inl (LineErr 0 err)
              | Inr data' \<Rightarrow> parseDotEnvLoop rest 1 data') \<and>
           (l \<noteq> [] \<longrightarrow>
              parseDotEnvLoop l 0 data =
                (case parseDotEnvLine (dropCR l) data of
                   Inl err \<Rightarrow> Inl (LineErr 0 err)
                 | Inr data' \<Rightarrow> Inr data'))) \<and>
         (65536 \<le> length (CHR 0xEF # CHR 0xBB # CHR 0xBF # l) \<longrightarrow>
           parseDotEnvLoop (CHR 0xEF # CHR 0xBB # CHR 0xBF # l @ CHR 0x0A # rest) n data
             = Inl ErrTooLong \<and>
           parseDotEnvLoop (CHR 0xEF # CHR 0xBB # CHR 0xBF # l) n data = Inl ErrTooLong)"
proof -
  have m: "maxScanTokenSize = 65536"
    by (simp add: maxScanTokenSize_def)
  show ?thesis
    using utf8bom_line [OF assms, of rest data n]
    unfolding m utf8bom_def append_Cons append_Nil .
qed

theorem utf8bom_only_first_line_witness:
  "parseDotEnvContent (CHR 0xEF # CHR 0xBB # CHR 0xBF # ''A=1'' @ [CHR 0x0A]) Map.empty
     = Inr [''A'' \<mapsto> ''MQ==''] \<and>
   parseDotEnvContent (CHR 0xEF # CHR 0xBB # CHR 0xBF # ''A=1'') Map.empty
     = Inr [''A'' \<mapsto> ''MQ==''] \<and>
   parseDotEnvContent (''X=0'' @ [CHR 0x0A] @ CHR 0xEF # CHR 0xBB # CHR 0xBF # ''A=1'' @ [CHR 0x0A])
       Map.empty
     = Inr [''X'' \<mapsto> ''MA=='', CHR 0xEF # CHR 0xBB # CHR 0xBF # ''A'' \<mapsto> ''MQ==''] \<and>
   parseDotEnvContent (''X=0'' @ [CHR 0x0A] @ CHR 0xEF # CHR 0xBB # CHR 0xBF # ''A=1'') Map.empty
     = Inr [''X'' \<mapsto> ''MA=='', CHR 0xEF # CHR 0xBB # CHR 0xBF # ''A'' \<mapsto> ''MQ==''] \<and>
   parseDotEnvContent (''A=1'' @ [CHR 0x0A]) Map.empty = Inr [''A'' \<mapsto> ''MQ==''] \<and>
   parseDotEnvContent ''A=1'' Map.empty = Inr [''A'' \<mapsto> ''MQ==''] \<and>
   parseDotEnvContent (CHR 0xEF # CHR 0xBB # CHR 0xBF # ''A='' @ replicate 65531 (CHR ''x'')) Map.empty
     = Inl ErrTooLong"
proof -
  have cr: "dropCR ''A=1'' = ''A=1''" "dropCR ''X=0'' = ''X=0''"
    by (simp_all add: dropCR_alt)
  have nl: "CHR 0x0A \<notin> set ''A=1''" "CHR 0x0A \<notin> set ''X=0''"
    "CHR 0x0A \<notin> set (''A='' @ replicate 65531 (CHR ''x''))"
    by simp_all
  have lenX: "length ''X=0'' < maxScanTokenSize"
    by (simp add: maxScanTokenSize_def)
  note line0 = utf8bom_only_first_line [OF nl(1), of "[]" Map.empty 1]
  note later = utf8bom_only_first_line [OF nl(1), of "[]" "[''X'' \<mapsto> ''MA=='']" 1]
  note long = utf8bom_only_first_line [OF nl(3), of "[]" Map.empty 0]
  have skipX: "parseDotEnvLoop (''X=0'' @ CHR 0x0A # rest) 0 Map.empty
          = parseDotEnvLoop rest 1 [''X'' \<mapsto> ''MA=='']" for rest
    by (subst parseDotEnvLoop_line [OF nl(2) lenX])
       (simp add: cr TrimPrefix_utf8bom_ascii line_X_0)
  have p1: "parseDotEnvLoop (CHR 0xEF # CHR 0xBB # CHR 0xBF # ''A=1'' @ CHR 0x0A # []) 0 Map.empty
              = Inr [''A'' \<mapsto> ''MQ=='']"
    and p2: "parseDotEnvLoop (CHR 0xEF # CHR 0xBB # CHR 0xBF # ''A=1'') 0 Map.empty
              = Inr [''A'' \<mapsto> ''MQ=='']"
    and p5: "parseDotEnvLoop (''A=1'' @ CHR 0x0A # []) 0 Map.empty = Inr [''A'' \<mapsto> ''MQ=='']"
    and p6: "parseDotEnvLoop ''A=1'' 0 Map.empty = Inr [''A'' \<mapsto> ''MQ=='']"
    using line0 by (simp_all add: cr line_A_1 parseDotEnvLoop_Nil)
  have p3: "parseDotEnvLoop (CHR 0xEF # CHR 0xBB # CHR 0xBF # ''A=1'' @ CHR 0x0A # []) 1
               [''X'' \<mapsto> ''MA=='']
              = Inr [''X'' \<mapsto> ''MA=='', CHR 0xEF # CHR 0xBB # CHR 0xBF # ''A'' \<mapsto> ''MQ=='']"
    and p4: "parseDotEnvLoop (CHR 0xEF # CHR 0xBB # CHR 0xBF # ''A=1'') 1 [''X'' \<mapsto> ''MA=='']
              = Inr [''X'' \<mapsto> ''MA=='', CHR 0xEF # CHR 0xBB # CHR 0xBF # ''A'' \<mapsto> ''MQ=='']"
    using later line_bom_A_1 [of "[''X'' \<mapsto> ''MA=='']"]
    by (simp_all add: cr parseDotEnvLoop_Nil)
  have p7: "parseDotEnvLoop (CHR 0xEF # CHR 0xBB # CHR 0xBF # ''A='' @ replicate 65531 (CHR ''x''))
               0 Map.empty = Inl ErrTooLong"
    using long by simp
  show ?thesis
    using p1 p2 p3 p4 p5 p6 p7
          skipX [of "CHR 0xEF # CHR 0xBB # CHR 0xBF # ''A=1'' @ CHR 0x0A # []"]
          skipX [of "CHR 0xEF # CHR 0xBB # CHR 0xBF # ''A=1''"]
    by (simp add: parseDotEnvContent_def)
qed

text \<open>
  A line 0 of 65533 bytes is accepted. The same line after the byte-order mark has
  65536 bytes: the mark is not stripped, the extraction fails. The same bytes as
  line 1 are not kept as the content of that line either: the extraction fails.
  This is against claim C8 as stated, which has no bound on the line.
\<close>

theorem utf8bom_long_line_counterexample:
  "parseDotEnvContent (''A='' @ replicate 65531 (CHR ''x'')) Map.empty
     = Inr [''A'' \<mapsto> EncodeToString (replicate 65531 (CHR ''x''))] \<and>
   parseDotEnvContent (CHR 0xEF # CHR 0xBB # CHR 0xBF # ''A='' @ replicate 65531 (CHR ''x'')) Map.empty
     = Inl ErrTooLong \<and>
   parseDotEnvContent
       (''X=0'' @ [CHR 0x0A] @ CHR 0xEF # CHR 0xBB # CHR 0xBF # ''A='' @ replicate 65531 (CHR ''x''))
       Map.empty
     = Inl ErrTooLong"
proof -
  let ?long = "''A='' @ replicate 65531 (CHR ''x'')"
  let ?bomlong = "CHR 0xEF # CHR 0xBB # CHR 0xBF # ?long"
  have nl: "CHR 0x0A \<notin> set ?long" "CHR 0x0A \<notin> set ?bomlong" "CHR 0x0A \<notin> set ''X=0''"
    by simp_all
  have len: "length ?long < maxScanTokenSize" "maxScanTokenSize \<le> length ?bomlong"
    "length ''X=0'' < maxScanTokenSize"
    by (simp_all add: maxScanTokenSize_def)
  have ok: "parseDotEnvLoop ?long 0 Map.empty
              = Inr [''A'' \<mapsto> EncodeToString (replicate 65531 (CHR ''x''))]"
    by (subst parseDotEnvLoop_final [OF nl(1) len(1)])
       (simp_all add: dropCR_A_long TrimPrefix_utf8bom_ascii line_A_long)
  have bad0: "parseDotEnvLoop (?bomlong @ []) 0 Map.empty = Inl ErrTooLong"
    by (rule parseDotEnvLoop_too_long_line [OF nl(2) len(2)])
  have bad1: "parseDotEnvLoop (?bomlong @ []) 1 [''X'' \<mapsto> ''MA==''] = Inl ErrTooLong"
    by (rule parseDotEnvLoop_too_long_line [OF nl(2) len(2)])
  have skipX: "parseDotEnvLoop (''X=0'' @ CHR 0x0A # ?bomlong) 0 Map.empty
          = parseDotEnvLoop ?bomlong 1 [''X'' \<mapsto> ''MA=='']"
    by (subst parseDotEnvLoop_line [OF nl(3) len(3)])
       (simp add: dropCR_alt TrimPrefix_utf8bom_ascii line_X_0)
  show ?thesis
    using ok bad0 bad1 skipX by (simp add: parseDotEnvContent_def)
qed

lemma line_terminators:
  assumes "CHR 0x0A \<notin> set l"
  shows "(length (l @ [CHR 0x0D]) < maxScanTokenSize \<longrightarrow>
           parseDotEnvLoop (l @ [CHR 0x0D, CHR 0x0A] @ rest) n data =
             (case parseDotEnvLine (if n = 0 then TrimPrefix l utf8bom else l) data of
                Inl err \<Rightarrow> Inl (LineErr n err)
              | Inr data' \<Rightarrow> parseDotEnvLoop rest (n + 1) data') \<and>
           parseDotEnvLoop (l @ [CHR 0x0D]) n data =
             (case parseDotEnvLine (if n = 0 then TrimPrefix l utf8bom else l) data of
                Inl err \<Rightarrow> Inl (LineErr n err)
              | Inr data' \<Rightarrow> Inr data')) \<and>
         (length l < maxScanTokenSize \<and> (l = [] \<or> last l \<noteq> CHR 0x0D) \<longrightarrow>
           parseDotEnvLoop (l @ [CHR 0x0A] @ rest) n data =
             (case parseDotEnvLine (if n = 0 then TrimPrefix l utf8bom else l) data of
                Inl err \<Rightarrow> Inl (LineErr n err)
              | Inr data' \<Rightarrow> parseDotEnvLoop rest (n + 1) data') \<and>
           (l \<noteq> [] \<longrightarrow>
              parseDotEnvLoop l n data =
                (case parseDotEnvLine (if n = 0 then TrimPrefix l utf8bom else l) data of
                   Inl err \<Rightarrow> Inl (LineErr n err)
                 | Inr data' \<Rightarrow> Inr data'))) \<and>
         (maxScanTokenSize \<le> length l \<longrightarrow>
           parseDotEnvLoop (l @ [CHR 0x0A] @ rest) n data = Inl ErrTooLong \<and>
           parseDotEnvLoop l n data = Inl ErrTooLong)"
proof (intro conjI impI)
  {
    assume len: "length (l @ [CHR 0x0D]) < maxScanTokenSize"
    have nl: "CHR 0x0A \<notin> set (l @ [CHR 0x0D])"
      using assms by simp
    show "parseDotEnvLoop (l @ [CHR 0x0D, CHR 0x0A] @ rest) n data =
             (case parseDotEnvLine (if n = 0 then TrimPrefix l utf8bom else l) data of
                Inl err \<Rightarrow> Inl (LineErr n err)
              | Inr data' \<Rightarrow> parseDotEnvLoop rest (n + 1) data')"
      using parseDotEnvLoop_line [OF nl len, of rest n data] by (simp add: dropCR_snoc)
    show "parseDotEnvLoop (l @ [CHR 0x0D]) n data =
             (case parseDotEnvLine (if n = 0 then TrimPrefix l utf8bom else l) data of
                Inl err \<Rightarrow> Inl (LineErr n err)
              | Inr data' \<Rightarrow> Inr data')"
      using parseDotEnvLoop_final [OF nl len, of n data] by (simp add: dropCR_snoc)
  }
  {
    assume a: "length l < maxScanTokenSize \<and> (l = [] \<or> last l \<noteq> CHR 0x0D)"
    then have len: "length l < maxScanTokenSize" and cr: "dropCR l = l"
      by (simp_all add: dropCR_no_CR)
    show "parseDotEnvLoop (l @ [CHR 0x0A] @ rest) n data =
             (case parseDotEnvLine (if n = 0 then TrimPrefix l utf8bom else l) data of
                Inl err \<Rightarrow> Inl (LineErr n err)
              | Inr data' \<Rightarrow> parseDotEnvLoop rest (n + 1) data')"
      using parseDotEnvLoop_line [OF assms len, of rest n data] by (simp add: cr)
    assume "l \<noteq> []"
    then show "parseDotEnvLoop l n data =
                (case parseDotEnvLine (if n = 0 then TrimPrefix l utf8bom else l) data of
                   Inl err \<Rightarrow> Inl (LineErr n err)
                 | Inr data' \<Rightarrow> Inr data')"
      using parseDotEnvLoop_final [OF assms len, of n data] by (simp add: cr)
  }
  {
    assume long: "maxScanTokenSize \<le> length l"
    show "parseDotEnvLoop (l @ [CHR 0x0A] @ rest) n data = Inl ErrTooLong"
      by (rule parseDotEnvLoop_too_long_line [OF assms long])
    show "parseDotEnvLoop l n data = Inl ErrTooLong"
      using parseDotEnvLoop_too_long_line [OF assms long, of "[]" n data] by simp
  }
qed

text \<open>
  Claim C10 (amended). Content is split into lines at the line feed; a line is the
  bytes up to a line feed or up to the end of the content. For a line of fewer
  than 65536 bytes, a carriage return at its end included: a line that ends in
  a carriage return, before the line feed or at the end of the content, is
  parsed without that one carriage return (any carriage return before it stays
  in the line); a line that does not end in a carriage return is parsed as it is,
  whether a line feed follows or it is the non-empty final line without one. A
  line of 65536 bytes or more, with or without a line feed, makes the extraction
  fail with the scanner's error. (In line 0 a leading byte-order mark is removed
  as well.)
\<close>

theorem dotenv_line_terminators:
  assumes "CHR 0x0A \<notin> set l"
  shows "(length (l @ [CHR 0x0D]) < 65536 \<longrightarrow>
           parseDotEnvLoop (l @ [CHR 0x0D, CHR 0x0A] @ rest) n data =
             (case parseDotEnvLine (if n = 0 then TrimPrefix l utf8bom else l) data of
                Inl err \<Rightarrow> Inl (LineErr n err)
              | Inr data' \<Rightarrow> parseDotEnvLoop rest (n + 1) data') \<and>
           parseDotEnvLoop (l @ [CHR 0x0D]) n data =
             (case parseDotEnvLine (if n = 0 then TrimPrefix l utf8bom else l) data of
                Inl err \<Rightarrow> Inl (LineErr n err)
              | Inr data' \<Rightarrow> Inr data')) \<and>
         (length l < 65536 \<and> (l = [] \<or> last l \<noteq> CHR 0x0D) \<longrightarrow>
           parseDotEnvLoop (l @ [CHR 0x0A] @ rest) n data =
             (case parseDotEnvLine (if n = 0 then TrimPrefix l utf8bom else l) data of
                Inl err \<Rightarrow> Inl (LineErr n err)
              | Inr data' \<Rightarrow> parseDotEnvLoop rest (n + 1) data') \<and>
           (l \<noteq> [] \<longrightarrow>
              parseDotEnvLoop l n data =
                (case parseDotEnvLine (if n = 0 then TrimPrefix l utf8bom else l) data of
                   Inl err \<Rightarrow> Inl (LineErr n err)
                 | Inr data' \<Rightarrow> Inr data'))) \<and>
         (65536 \<le> length l \<longrightarrow>
           parseDotEnvLoop (l @ [CHR 0x0A] @ rest) n data = Inl ErrTooLong \<and>
           parseDotEnvLoop l n data = Inl ErrTooLong)"
proof -
  have m: "maxScanTokenSize = 65536"
    by (simp add: maxScanTokenSize_def)
  show ?thesis
    using line_terminators [OF assms, of rest n data]
    unfolding m .
qed

theorem dotenv_line_terminators_witness:
  "parseDotEnvContent (''A=b'' @ [CHR 0x0D, CHR 0x0A]) Map.empty = Inr [''A'' \<mapsto> ''Yg==''] \<and>
   parseDotEnvContent (''A=b'' @ [CHR 0x0D]) Map.empty = Inr [''A'' \<mapsto> ''Yg==''] \<and>
   parseDotEnvContent (''A=b'' @ [CHR 0x0A]) Map.empty = Inr [''A'' \<mapsto> ''Yg==''] \<and>
   parseDotEnvContent ''A=b'' Map.empty = Inr [''A'' \<mapsto> ''Yg==''] \<and>
   parseDotEnvContent (replicate 65536 (CHR ''x'') @ [CHR 0x0A]) Map.empty = Inl ErrTooLong \<and>
   parseDotEnvContent (replicate 65536 (CHR ''x'')) Map.empty = Inl ErrTooLong"
proof -
  have nl: "CHR 0x0A \<notin> set ''A=b''" "CHR 0x0A \<notin> set (replicate 65536 (CHR ''x''))"
    by simp_all
  have tp: "TrimPrefix ''A=b'' utf8bom = ''A=b''"
    by (simp add: TrimPrefix_utf8bom_ascii)
  show ?thesis
    using dotenv_line_terminators [OF nl(1), of "[]" 0 Map.empty]
          dotenv_line_terminators [OF nl(2), of "[]" 0 Map.empty]
    by (simp add: parseDotEnvContent_def tp line_A_b parseDotEnvLoop_Nil)
qed

text \<open>
  The content \<open>A=b\<close> followed by two carriage returns and a line feed: the stored
  value is \<open>b\<close> followed by a carriage return. The content \<open>A=\<close> followed by 65534
  times \<open>x\<close>, a final line of 65536 bytes without a line feed: it is not parsed as
  a line, the extraction fails. Both are against claim C10 as stated.
\<close>

theorem trailing_CR_counterexample:
  "parseDotEnvContent (''A=b'' @ [CHR 0x0D, CHR 0x0D, CHR 0x0A]) Map.empty
     = Inr [''A'' \<mapsto> EncodeToString (''b'' @ [CHR 0x0D])] \<and>
   last (''b'' @ [CHR 0x0D]) = CHR 0x0D \<and>
   parseDotEnvContent (''A='' @ replicate 65534 (CHR ''x'')) Map.empty = Inl ErrTooLong"
proof -
  have "parseDotEnvLoop ([CHR ''A'', CHR ''='', CHR ''b'', CHR 0x0D, CHR 0x0D] @ CHR 0x0A # []) 0
          Map.empty
     = (case parseDotEnvLine [CHR ''A'', CHR ''='', CHR ''b'', CHR 0x0D] Map.empty of
          Inl err \<Rightarrow> Inl (LineErr 0 err)
        | Inr data' \<Rightarrow> parseDotEnvLoop [] (0 + 1) data')"
    by (subst parseDotEnvLoop_line)
       (simp_all add: maxScanTokenSize_def dropCR_alt TrimPrefix_utf8bom_ascii)
  moreover have "parseDotEnvLoop ((''A='' @ replicate 65534 (CHR ''x'')) @ []) 0 Map.empty
                   = Inl ErrTooLong"
    by (rule parseDotEnvLoop_too_long_line) (simp_all add: maxScanTokenSize_def)
  ultimately show ?thesis
    by (simp add: parseDotEnvContent_def line_A_b_CR parseDotEnvLoop_Nil enc_def encodeStd_def)
qed

subsection \<open>Sources are independent of the data gathered before them\<close>

lemma parseDotEnvLine_indep:
  "parseDotEnvLine line data =
     (case parseDotEnvLine line Map.empty of Inl err \<Rightarrow> Inl err | Inr m \<Rightarrow> Inr (data ++ m))"
  by (simp add: parseDotEnvLine_def Let_def)

lemma parseDotEnvLoop_indep:
  "parseDotEnvLoop unread n data =
     (case parseDotEnvLoop unread n Map.empty of Inl err \<Rightarrow> Inl err | Inr m \<Rightarrow> Inr (data ++ m))"
proof (induction unread arbitrary: n data rule: length_induct)
  case (1 unread)
  show ?case
  proof (cases "Scan unread")
    case (Stop err)
    then show ?thesis
      by (subst (1 2) parseDotEnvLoop.simps) (simp split: option.splits)
  next
    case (Token token unread')
    define line where "line = (if n = 0 then TrimPrefix token utf8bom else token)"
    have shorter: "length unread' < length unread"
      using Token by (rule Scan_Token_shorter)
    have unfold: "parseDotEnvLoop unread n d =
        (case parseDotEnvLine line d of
           Inl err \<Rightarrow> Inl (LineErr n err)
         | Inr d' \<Rightarrow> parseDotEnvLoop unread' (n + 1) d')" for d
      by (subst parseDotEnvLoop.simps) (simp add: Token line_def Let_def)
    show ?thesis
    proof (cases "parseDotEnvLine line Map.empty")
      case (Inl err)
      then have "parseDotEnvLine line data = Inl err"
        by (subst parseDotEnvLine_indep) simp
      with Inl show ?thesis
        by (simp add: unfold)
    next
      case (Inr m1)
      then have line_data: "parseDotEnvLine line data = Inr (data ++ m1)"
        by (subst parseDotEnvLine_indep) simp
      have ih: "parseDotEnvLoop unread' (n + 1) d =
          (case parseDotEnvLoop unread' (n + 1) Map.empty of
             Inl err \<Rightarrow> Inl err | Inr m \<Rightarrow> Inr (d ++ m))" for d
        using "1.IH" shorter by blast
      show ?thesis
        unfolding unfold line_data Inr sum.case
        by (subst ih [of "data ++ m1"], subst ih [of m1]) (simp split: sum.splits)
    qed
  qed
qed

lemma parseDotEnvContent_indep:
  "parseDotEnvContent content data =
     (case parseDotEnvContent content Map.empty of
        Inl err \<Rightarrow> Inl err | Inr m \<Rightarrow> Inr (data ++ m))"
  unfolding parseDotEnvContent_def by (rule parseDotEnvLoop_indep)

lemma parseYAMLContent_indep:
  "parseYAMLContent w content data =
     (case parseYAMLContent w content Map.empty of
        Inl err \<Rightarrow> Inl err | Inr m \<Rightarrow> Inr (data ++ m))"
  by (simp add: parseYAMLContent_def split: sum.splits)

lemma parseJSONContent_indep:
  "parseJSONContent w content data =
     (case parseJSONContent w content Map.empty of
        Inl err \<Rightarrow> Inl err | Inr m \<Rightarrow> Inr (data ++ m))"
  by (simp add: parseJSONContent_def split: sum.splits)

lemma decryptFile_log:
  "decryptFile w source log = (fst (decryptFile w source []), log @ snd (decryptFile w source []))"
  by (simp add: decryptFile_def split: sum.splits)

lemma parseEnvSource_indep:
  "parseEnvSource w source data log =
     (case fst (envSourceOutcome w source) of
        Inl err \<Rightarrow> (Inl err, log @ events (envSourceOutcome w source))
      | Inr m \<Rightarrow> (Inr (data ++ m), log @ events (envSourceOutcome w source)))"
proof -
  obtain r ev where d0: "decryptFile w source [] = (r, ev)"
    by (cases "decryptFile w source []")
  have dl: "decryptFile w source log = (r, log @ ev)"
    using decryptFile_log [of w source log] d0 by simp
  show ?thesis
  proof (cases r)
    case (Inl err)
    then show ?thesis
      by (simp add: envSourceOutcome_def events_def parseEnvSource_def d0 dl)
  next
    case (Inr decrypted)
    show ?thesis
      unfolding envSourceOutcome_def events_def parseEnvSource_def d0 dl Inr
      by (cases "FormatForPath w source")
         (simp_all add: parseDotEnvContent_indep [of decrypted data]
            parseYAMLContent_indep [of w decrypted data]
            parseJSONContent_indep [of w decrypted data] split: sum.splits)
  qed
qed

lemma parseFileSource_indep:
  "parseFileSource w source data log =
     (case fst (fileSourceOutcome w source) of
        Inl err \<Rightarrow> (Inl err, log @ events (fileSourceOutcome w source))
      | Inr m \<Rightarrow> (Inr (data ++ m), log @ events (fileSourceOutcome w source)))"
proof (cases "parseFileName source")
  case (Inl err)
  then show ?thesis
    by (simp add: fileSourceOutcome_def events_def parseFileSource_def)
next
  case (Inr kf)
  obtain key fname where kf: "kf = (key, fname)"
    by (cases kf)
  obtain r ev where d0: "decryptFile w fname [] = (r, ev)"
    by (cases "decryptFile w fname []")
  have dl: "decryptFile w fname log = (r, log @ ev)"
    using decryptFile_log [of w fname log] d0 by simp
  show ?thesis
    unfolding fileSourceOutcome_def events_def parseFileSource_def Inr kf
    by (cases r) (simp_all add: d0 dl)
qed

lemma parseEnvSources_all:
  assumes "\<forall>source\<in>set sources. succeeds (envSourceOutcome w source)"
  shows "parseEnvSources w sources data log =
     (Inr (foldl (++) data (map (\<lambda>source. entries (envSourceOutcome w source)) sources)),
      log @ concat (map (\<lambda>source. events (envSourceOutcome w source)) sources))"
  using assms
proof (induction sources arbitrary: data log)
  case Nil
  then show ?case by simp
next
  case (Cons source sources)
  from Cons.prems obtain m where m: "fst (envSourceOutcome w source) = Inr m"
    by (auto simp: succeeds_def split: sum.splits)
  have "parseEnvSource w source data log
          = (Inr (data ++ m), log @ events (envSourceOutcome w source))"
    by (subst parseEnvSource_indep) (simp add: m)
  moreover have "entries (envSourceOutcome w source) = m"
    by (simp add: entries_def m)
  ultimately show ?case
    using Cons.IH [of "data ++ m" "log @ events (envSourceOutcome w source)"] Cons.prems
    by simp
qed

lemma parseFileSources_all:
  assumes "\<forall>source\<in>set sources. succeeds (fileSourceOutcome w source)"
  shows "parseFileSources w sources data log =
     (Inr (foldl (++) data (map (\<lambda>source. entries (fileSourceOutcome w source)) sources)),
      log @ concat (map (\<lambda>source. events (fileSourceOutcome w source)) sources))"
  using assms
proof (induction sources arbitrary: data log)
  case Nil
  then show ?case by simp
next
  case (Cons source sources)
  from Cons.prems obtain m where m: "fst (fileSourceOutcome w source) = Inr m"
    by (auto simp: succeeds_def split: sum.splits)
  have "parseFileSource w source data log
          = (Inr (data ++ m), log @ events (fileSourceOutcome w source))"
    by (subst parseFileSource_indep) (simp add: m)
  moreover have "entries (fileSourceOutcome w source) = m"
    by (simp add: entries_def m)
  ultimately show ?case
    using Cons.IH [of "data ++ m" "log @ events (fileSourceOutcome w source)"] Cons.prems
    by simp
qed

subsection \<open>The example world, evaluated\<close>

lemma ex_decrypt_env:
  "decryptFile exampleWorld ''a.env'' log
     = (Inr ''FOO=secret'', log @ [ReadFile ''a.env'', Decrypt ''ENC[a.env]'' Dotenv])"
  by (simp add: decryptFile_def exampleWorld_def)

lemma ex_decrypt_plain:
  "decryptFile exampleWorld ''plain.txt'' log
     = (Inr (''secret'' @ [CHR 0x0A]),
        log @ [ReadFile ''plain.txt'', Decrypt ''ENC[plain.txt]'' Binary])"
  by (simp add: decryptFile_def exampleWorld_def)

lemma ex_line: "parseDotEnvLine ''FOO=secret'' data = Inr (data(''FOO'' \<mapsto> ''c2VjcmV0''))"
  using parseDotEnvLine_pair [of "''FOO=secret''" "''FOO''" "''secret''" data]
  by (simp add: Valid.simps TrimLeftSpace.simps IsSpace_def enc_def encodeStd_def)

lemma ex_dotenv: "parseDotEnvContent ''FOO=secret'' data = Inr (data(''FOO'' \<mapsto> ''c2VjcmV0''))"
proof -
  have "dropCR ''FOO=secret'' = ''FOO=secret''"
    by (simp add: dropCR_alt)
  moreover have "TrimPrefix ''FOO=secret'' utf8bom = ''FOO=secret''"
    by (simp add: TrimPrefix_utf8bom_ascii)
  ultimately show ?thesis
    unfolding parseDotEnvContent_def
    by (subst parseDotEnvLoop_final) (simp_all add: maxScanTokenSize_def ex_line)
qed

lemma ex_env:
  "parseEnvSource exampleWorld ''a.env'' data log
     = (Inr (data(''FOO'' \<mapsto> ''c2VjcmV0'')),
        log @ [ReadFile ''a.env'', Decrypt ''ENC[a.env]'' Dotenv])"
proof -
  have "FormatForPath exampleWorld ''a.env'' = Dotenv"
    by (simp add: exampleWorld_def)
  then show ?thesis
    by (simp add: parseEnvSource_def ex_decrypt_env ex_dotenv)
qed

lemma ex_encode_plain: "EncodeToString (''secret'' @ [CHR 0x0A]) = ''c2VjcmV0Cg==''"
  by (simp add: enc_def encodeStd_def)

lemma ex_file_1:
  "parseFileSource exampleWorld ''secret-file.txt=plain.txt'' data log
     = (Inr (data(''secret-file.txt'' \<mapsto> ''c2VjcmV0Cg=='')),
        log @ [ReadFile ''plain.txt'', Decrypt ''ENC[plain.txt]'' Binary])"
proof -
  have "parseFileName ''secret-file.txt=plain.txt'' = Inr (''secret-file.txt'', ''plain.txt'')"
    using parseFileName_pair [of "''secret-file.txt''" "''plain.txt''"] by simp
  then show ?thesis
    by (simp only: parseFileSource_def sum.case prod.case ex_decrypt_plain ex_encode_plain)
qed

lemma ex_file_2:
  "parseFileSource exampleWorld ''FOO=plain.txt'' data log
     = (Inr (data(''FOO'' \<mapsto> ''c2VjcmV0Cg=='')),
        log @ [ReadFile ''plain.txt'', Decrypt ''ENC[plain.txt]'' Binary])"
proof -
  have "parseFileName ''FOO=plain.txt'' = Inr (''FOO'', ''plain.txt'')"
    using parseFileName_pair [of "''FOO''" "''plain.txt''"] by simp
  then show ?thesis
    by (simp only: parseFileSource_def sum.case prod.case ex_decrypt_plain ex_encode_plain)
qed

lemma ex_parseInput:
  "parseInput exampleWorld exampleGenerator log
     = (Inr [''FOO'' \<mapsto> ''c2VjcmV0'', ''secret-file.txt'' \<mapsto> ''c2VjcmV0Cg=='',
             ''FOO'' \<mapsto> ''c2VjcmV0Cg==''],
        log @ [ReadFile ''a.env'', Decrypt ''ENC[a.env]'' Dotenv,
               ReadFile ''plain.txt'', Decrypt ''ENC[plain.txt]'' Binary,
               ReadFile ''plain.txt'', Decrypt ''ENC[plain.txt]'' Binary])"
  by (simp add: parseInput_def exampleGenerator_def ex_env ex_file_1 ex_file_2)

lemma ex_generateSecret:
  "\<exists>secret. generateSecret exampleWorld exampleGenerator log
     = (Inr secret,
        log @ [ReadFile ''a.env'', Decrypt ''ENC[a.env]'' Dotenv,
               ReadFile ''plain.txt'', Decrypt ''ENC[plain.txt]'' Binary,
               ReadFile ''plain.txt'', Decrypt ''ENC[plain.txt]'' Binary])
     \<and> Name (SecretObjectMeta secret) = ''my-secret''
     \<and> Annotations (SecretObjectMeta secret) ''created-by'' = Some ''me''"
  by (simp add: generateSecret_def ex_parseInput Let_def) (simp add: exampleGenerator_def stripAnnotations_def)

lemma ex_annotated:
  "\<exists>secret. generateSecret exampleWorld annotatedGenerator log = (Inr secret, log)"
  by (simp add: generateSecret_def parseInput_def Let_def annotatedGenerator_def)

lemma ex_readInput_good: "readInput exampleWorld ''good'' = Inr exampleGenerator"
proof -
  have "yamlUnmarshalInput exampleWorld ''good'' newSopsSecretGenerator = Inr exampleGenerator"
    by (simp add: exampleWorld_def)
  moreover have "APIVersion (TypeMeta exampleGenerator) = apiVersion"
    "Kind (TypeMeta exampleGenerator) = kind" "Name (ObjectMeta exampleGenerator) \<noteq> []"
    by (simp_all add: exampleGenerator_def)
  ultimately show ?thesis
    by (simp add: readInput_def)
qed

lemma ex_unmarshal_wrong_kind:
  "yamlUnmarshalInput exampleWorld ''wrong-kind'' newSopsSecretGenerator
     = Inr (exampleGenerator\<lparr>TypeMeta := \<lparr>APIVersion = apiVersion, Kind = ''Secret''\<rparr>\<rparr>)"
  by (simp add: exampleWorld_def)

lemma ex_process_good:
  "processSopsSecretGenerator exampleWorld ''good'' log
     = (Inr ''Secret/my-secret'',
        log @ [ReadFile ''a.env'', Decrypt ''ENC[a.env]'' Dotenv,
               ReadFile ''plain.txt'', Decrypt ''ENC[plain.txt]'' Binary,
               ReadFile ''plain.txt'', Decrypt ''ENC[plain.txt]'' Binary])"
proof -
  from ex_generateSecret [of log] obtain secret where
    g: "generateSecret exampleWorld exampleGenerator log
          = (Inr secret,
             log @ [ReadFile ''a.env'', Decrypt ''ENC[a.env]'' Dotenv,
                    ReadFile ''plain.txt'', Decrypt ''ENC[plain.txt]'' Binary,
                    ReadFile ''plain.txt'', Decrypt ''ENC[plain.txt]'' Binary])"
    and n: "Name (SecretObjectMeta secret) = ''my-secret''"
    by blast
  have "yamlMarshal exampleWorld secret = Inr ''Secret/my-secret''"
    by (simp add: exampleWorld_def n)
  then show ?thesis
    by (simp add: processSopsSecretGenerator_def ex_readInput_good g)
qed

lemma ex_process_wrong_kind:
  "processSopsSecretGenerator exampleWorld ''wrong-kind'' log = (Inl BadApiVersionKind, log)"
  by (simp add: processSopsSecretGenerator_def readInput_def ex_unmarshal_wrong_kind kind_def)

subsection \<open>Order of the sources and collisions\<close>

lemma foldl_map_add_last_wins:
  assumes "m k = Some v" and "\<forall>m'\<in>set later. m' k = None"
  shows "foldl (++) m0 (earlier @ m # later) k = Some v"
proof -
  have "foldl (++) m1 later k = m1 k" if "\<forall>m'\<in>set later. m' k = None" for m1
    using that by (induction later arbitrary: m1) (simp_all add: map_add_def)
  with assms show ?thesis
    by (simp add: map_add_def)
qed

text \<open>
  Claim C4. When every source, taken on its own, decrypts and parses, the whole
  input is parsed without error, whatever keys the sources share: the data is the
  entries of the env sources in their order, then of the file sources in their
  order, each map overriding the ones before it (\<open>++\<close> gives the later value to a
  key that both define), and the files are read and decrypted in that same order.
\<close>

theorem parseInput_last_write_wins:
  assumes "\<forall>source\<in>set (EnvSources input). succeeds (envSourceOutcome w source)"
    and "\<forall>source\<in>set (FileSources input). succeeds (fileSourceOutcome w source)"
  shows "parseInput w input log =
     (Inr (foldl (++) Map.empty
             (map (\<lambda>source. entries (envSourceOutcome w source)) (EnvSources input)
              @ map (\<lambda>source. entries (fileSourceOutcome w source)) (FileSources input))),
      log @ concat (map (\<lambda>source. events (envSourceOutcome w source)) (EnvSources input))
          @ concat (map (\<lambda>source. events (fileSourceOutcome w source)) (FileSources input)))"
  unfolding parseInput_def
  by (simp add: parseEnvSources_all [OF assms(1)] parseFileSources_all [OF assms(2)])

theorem parseInput_last_write_wins_witness:
  "parseInput exampleWorld exampleGenerator []
     = (Inr [''FOO'' \<mapsto> ''c2VjcmV0'', ''secret-file.txt'' \<mapsto> ''c2VjcmV0Cg=='',
             ''FOO'' \<mapsto> ''c2VjcmV0Cg==''],
        [ReadFile ''a.env'', Decrypt ''ENC[a.env]'' Dotenv,
         ReadFile ''plain.txt'', Decrypt ''ENC[plain.txt]'' Binary,
         ReadFile ''plain.txt'', Decrypt ''ENC[plain.txt]'' Binary])
   \<and> [''FOO'' \<mapsto> ''c2VjcmV0'', ''secret-file.txt'' \<mapsto> ''c2VjcmV0Cg=='',
       ''FOO'' \<mapsto> ''c2VjcmV0Cg==''] ''FOO'' = Some ''c2VjcmV0Cg==''"
proof -
  have env: "envSourceOutcome exampleWorld ''a.env''
      = (Inr [''FOO'' \<mapsto> ''c2VjcmV0''], [ReadFile ''a.env'', Decrypt ''ENC[a.env]'' Dotenv])"
    using ex_env [of Map.empty "[]"] by (simp add: envSourceOutcome_def)
  have f1: "fileSourceOutcome exampleWorld ''secret-file.txt=plain.txt''
      = (Inr [''secret-file.txt'' \<mapsto> ''c2VjcmV0Cg==''],
         [ReadFile ''plain.txt'', Decrypt ''ENC[plain.txt]'' Binary])"
    using ex_file_1 [of Map.empty "[]"] by (simp add: fileSourceOutcome_def)
  have f2: "fileSourceOutcome exampleWorld ''FOO=plain.txt''
      = (Inr [''FOO'' \<mapsto> ''c2VjcmV0Cg==''],
         [ReadFile ''plain.txt'', Decrypt ''ENC[plain.txt]'' Binary])"
    using ex_file_2 [of Map.empty "[]"] by (simp add: fileSourceOutcome_def)
  have srcs: "EnvSources exampleGenerator = [''a.env'']"
    "FileSources exampleGenerator = [''secret-file.txt=plain.txt'', ''FOO=plain.txt'']"
    by (simp_all add: exampleGenerator_def)
  have a1: "\<forall>source\<in>set (EnvSources exampleGenerator). succeeds (envSourceOutcome exampleWorld source)"
    by (simp add: srcs env succeeds_def)
  have a2: "\<forall>source\<in>set (FileSources exampleGenerator). succeeds (fileSourceOutcome exampleWorld source)"
    by (simp add: srcs f1 f2 succeeds_def)
  show ?thesis
    using parseInput_last_write_wins [OF a1 a2, of "[]"]
    by (simp add: srcs env f1 f2 entries_def events_def)
qed

subsection \<open>The secret assembler\<close>

text \<open>
  Claim C5. The annotations of a generated Secret never contain the keys
  \<open>config.kubernetes.io/local-config\<close> and \<open>config.kubernetes.io/function\<close>,
  whatever the annotations of the request are.
\<close>

theorem generateSecret_strips_annotations:
  assumes "generateSecret w sopsSecret log = (Inr secret, log')"
  shows "Annotations (SecretObjectMeta secret) ''config.kubernetes.io/local-config'' = None \<and>
         Annotations (SecretObjectMeta secret) ''config.kubernetes.io/function'' = None"
  using assms
  by (auto simp: generateSecret_def Let_def stripAnnotations_def split: prod.splits sum.splits)

theorem generateSecret_strips_annotations_witness:
  "\<exists>secret log'.
     generateSecret exampleWorld exampleGenerator [] = (Inr secret, log') \<and>
     Annotations (ObjectMeta exampleGenerator) ''config.kubernetes.io/local-config'' = Some ''true'' \<and>
     Annotations (ObjectMeta exampleGenerator) ''config.kubernetes.io/function'' = Some ''exec'' \<and>
     Annotations (SecretObjectMeta secret) ''config.kubernetes.io/local-config'' = None \<and>
     Annotations (SecretObjectMeta secret) ''config.kubernetes.io/function'' = None \<and>
     Annotations (SecretObjectMeta secret) ''created-by'' = Some ''me''"
proof -
  from ex_generateSecret [of "[]"] obtain secret log' where
    g: "generateSecret exampleWorld exampleGenerator [] = (Inr secret, log')"
    and c: "Annotations (SecretObjectMeta secret) ''created-by'' = Some ''me''"
    by blast
  have "Annotations (ObjectMeta exampleGenerator) ''config.kubernetes.io/local-config'' = Some ''true''"
    "Annotations (ObjectMeta exampleGenerator) ''config.kubernetes.io/function'' = Some ''exec''"
    by (simp_all add: exampleGenerator_def)
  with g c generateSecret_strips_annotations [OF g] show ?thesis
    by blast
qed

text \<open>
  Claim C6 (amended). In a generated Secret the annotation
  \<open>kustomize.config.k8s.io/needs-hash\<close> has the value \<open>true\<close> when the request's
  \<open>disableNameSuffixHash\<close> is false; when it is true the assembler does not add the
  annotation, and the Secret has it exactly as the request's own annotations do.
\<close>

theorem generateSecret_needs_hash:
  assumes "generateSecret w sopsSecret log = (Inr secret, log')"
  shows "Annotations (SecretObjectMeta secret) ''kustomize.config.k8s.io/needs-hash'' =
           (if DisableNameSuffixHash sopsSecret
            then Annotations (ObjectMeta sopsSecret) ''kustomize.config.k8s.io/needs-hash''
            else Some ''true'')"
  using assms
  by (auto simp: generateSecret_def Let_def stripAnnotations_def split: prod.splits sum.splits)

theorem generateSecret_needs_hash_witness:
  "\<exists>secret log'.
     generateSecret exampleWorld exampleGenerator [] = (Inr secret, log') \<and>
     \<not> DisableNameSuffixHash exampleGenerator \<and>
     Annotations (ObjectMeta exampleGenerator) ''kustomize.config.k8s.io/needs-hash'' = None \<and>
     Annotations (SecretObjectMeta secret) ''kustomize.config.k8s.io/needs-hash'' = Some ''true''"
proof -
  from ex_generateSecret [of "[]"] obtain secret log' where
    g: "generateSecret exampleWorld exampleGenerator [] = (Inr secret, log')"
    by blast
  have d: "\<not> DisableNameSuffixHash exampleGenerator"
    "Annotations (ObjectMeta exampleGenerator) ''kustomize.config.k8s.io/needs-hash'' = None"
    by (simp_all add: exampleGenerator_def)
  with g generateSecret_needs_hash [OF g] show ?thesis
    by auto
qed

text \<open>
  A request that disables the name suffix hash and carries the needs-hash
  annotation itself: the Secret has the annotation with the value \<open>true\<close>, against
  the equivalence of claim C6 as stated.
\<close>

theorem needs_hash_copied_counterexample:
  "DisableNameSuffixHash annotatedGenerator \<and>
   (\<exists>secret log'.
      generateSecret exampleWorld annotatedGenerator [] = (Inr secret, log') \<and>
      Annotations (SecretObjectMeta secret) ''kustomize.config.k8s.io/needs-hash'' = Some ''true'')"
  by (simp add: generateSecret_def parseInput_def Let_def)
     (simp add: annotatedGenerator_def stripAnnotations_def)

subsection \<open>Validation\<close>

text \<open>
  Claim C1. A document that decodes to a request whose apiVersion or kind is not
  the expected constant, or whose name is empty, is rejected with a validation
  error: no Secret manifest is returned, and the log of file reads and
  decryptions is unchanged.
\<close>

theorem processSopsSecretGenerator_validation:
  assumes "yamlUnmarshalInput w manifestContent newSopsSecretGenerator = Inr input"
    and "APIVersion (TypeMeta input) \<noteq> apiVersion \<or> Kind (TypeMeta input) \<noteq> kind
         \<or> Name (ObjectMeta input) = []"
  shows "processSopsSecretGenerator w manifestContent log =
           (Inl (if APIVersion (TypeMeta input) \<noteq> apiVersion \<or> Kind (TypeMeta input) \<noteq> kind
                 then BadApiVersionKind else MissingName), log)"
  using assms by (auto simp: processSopsSecretGenerator_def readInput_def)

theorem processSopsSecretGenerator_validation_witness:
  "Kind (TypeMeta (exampleGenerator\<lparr>TypeMeta := \<lparr>APIVersion = apiVersion, Kind = ''Secret''\<rparr>\<rparr>)) \<noteq> kind \<and>
   processSopsSecretGenerator exampleWorld ''wrong-kind'' [] = (Inl BadApiVersionKind, [])"
proof -
  have k: "Kind (TypeMeta (exampleGenerator\<lparr>TypeMeta := \<lparr>APIVersion = apiVersion, Kind = ''Secret''\<rparr>\<rparr>)) \<noteq> kind"
    by (simp add: kind_def)
  then show ?thesis
    using processSopsSecretGenerator_validation [OF ex_unmarshal_wrong_kind, of "[]"]
    by simp
qed

subsection \<open>Batches\<close>

lemma generateLoop_append:
  assumes "generateLoop w pre generated rl log = ((rl1, True, None), log1)"
  shows "generateLoop w (pre @ rest) generated rl log = generateLoop w rest (Items rl1) rl log1"
  using assms
proof (induction pre arbitrary: generated log)
  case Nil
  then show ?case by auto
next
  case (Cons item pre)
  then show ?case
    by (auto simp: LogResult_def split: prod.splits sum.splits)
qed

text \<open>
  Claim C7 (amended). When the documents before a document are transformed and
  that document fails, in \<open>processSopsSecretGenerator\<close> or in \<open>ParseKubeObject\<close>,
  the batch stops there: the success flag is false, the error is returned and
  appended to the results of the resource list, and the items of the resource
  list are left as they were, the input documents. The Secrets gathered so far
  (\<open>Items rl1\<close>) are not in the result, and no later document is processed.
\<close>

theorem generateKRMManifest_first_failure:
  assumes "Items rl = pre @ item # post"
    and "generateLoop w pre [] rl log = ((rl1, True, None), log1)"
    and "processSopsSecretGenerator w (KubeObjectString w item) log1 = (Inl err, log2)
         \<or> (\<exists>secretManifest.
               processSopsSecretGenerator w (KubeObjectString w item) log1
                 = (Inr secretManifest, log2)
               \<and> ParseKubeObject w secretManifest = Inl err)"
  shows "generateKRMManifest w rl log =
           ((rl\<lparr>Results := Results rl @ [err]\<rparr>, False, Some err), log2)"
proof -
  have "generateLoop w (item # post) (Items rl1) rl log1
          = ((LogResult rl err, False, Some err), log2)"
    using assms(3) by auto
  then show ?thesis
    using generateLoop_append [OF assms(2), of "item # post"] assms(1)
    by (simp add: generateKRMManifest_def LogResult_def)
qed

lemma ex_loop_good:
  "generateLoop exampleWorld [KubeObject ''good''] [] exampleResourceList []
     = ((exampleResourceList\<lparr>Items := [KubeObject ''Secret/my-secret'']\<rparr>, True, None),
        [ReadFile ''a.env'', Decrypt ''ENC[a.env]'' Dotenv,
         ReadFile ''plain.txt'', Decrypt ''ENC[plain.txt]'' Binary,
         ReadFile ''plain.txt'', Decrypt ''ENC[plain.txt]'' Binary])"
proof -
  have "KubeObjectString exampleWorld (KubeObject ''good'') = ''good''"
    "ParseKubeObject exampleWorld ''Secret/my-secret'' = Inr (KubeObject ''Secret/my-secret'')"
    by (simp_all add: exampleWorld_def)
  then show ?thesis
    by (simp add: ex_process_good)
qed

theorem generateKRMManifest_first_failure_witness:
  "generateKRMManifest exampleWorld exampleResourceList []
     = ((\<lparr>Items = [KubeObject ''good'', KubeObject ''wrong-kind''],
          Results = [BadApiVersionKind]\<rparr>, False, Some BadApiVersionKind),
        [ReadFile ''a.env'', Decrypt ''ENC[a.env]'' Dotenv,
         ReadFile ''plain.txt'', Decrypt ''ENC[plain.txt]'' Binary,
         ReadFile ''plain.txt'', Decrypt ''ENC[plain.txt]'' Binary])"
proof -
  have items: "Items exampleResourceList = [KubeObject ''good''] @ KubeObject ''wrong-kind'' # []"
    by (simp add: exampleResourceList_def)
  have "KubeObjectString exampleWorld (KubeObject ''wrong-kind'') = ''wrong-kind''"
    by (simp add: exampleWorld_def)
  then have fail: "processSopsSecretGenerator exampleWorld
        (KubeObjectString exampleWorld (KubeObject ''wrong-kind''))
        [ReadFile ''a.env'', Decrypt ''ENC[a.env]'' Dotenv,
         ReadFile ''plain.txt'', Decrypt ''ENC[plain.txt]'' Binary,
         ReadFile ''plain.txt'', Decrypt ''ENC[plain.txt]'' Binary]
      = (Inl BadApiVersionKind,
         [ReadFile ''a.env'', Decrypt ''ENC[a.env]'' Dotenv,
          ReadFile ''plain.txt'', Decrypt ''ENC[plain.txt]'' Binary,
          ReadFile ''plain.txt'', Decrypt ''ENC[plain.txt]'' Binary])"
    by (simp add: ex_process_wrong_kind)
  show ?thesis
    using generateKRMManifest_first_failure [OF items ex_loop_good disjI1, OF fail]
    by (simp add: exampleResourceList_def)
qed

text \<open>
  The batch of the documents \<open>good\<close> and \<open>wrong-kind\<close>: the first is transformed
  into a Secret, the second fails, and the resource list reported with the error
  holds the two input documents and not that Secret, against claim C7 as stated.
\<close>

theorem partial_secrets_dropped_counterexample:
  "fst (processSopsSecretGenerator exampleWorld ''good'' []) = Inr ''Secret/my-secret'' \<and>
   fst (generateKRMManifest exampleWorld exampleResourceList [])
     = (\<lparr>Items = [KubeObject ''good'', KubeObject ''wrong-kind''],
         Results = [BadApiVersionKind]\<rparr>, False, Some BadApiVersionKind) \<and>
   KubeObject ''Secret/my-secret'' \<notin> set [KubeObject ''good'', KubeObject ''wrong-kind'']"
proof -
  have "KubeObjectString exampleWorld (KubeObject ''wrong-kind'') = ''wrong-kind''"
    "KubeObjectString exampleWorld (KubeObject ''good'') = ''good''"
    "ParseKubeObject exampleWorld ''Secret/my-secret'' = Inr (KubeObject ''Secret/my-secret'')"
    by (simp_all add: exampleWorld_def)
  then show ?thesis
    by (simp add: generateKRMManifest_def exampleResourceList_def ex_process_good
          ex_process_wrong_kind LogResult_def)
qed

end
